theory Spec2Isabelle
  imports Complex_Main "HOL-Library.AList"
begin

section \<open>Values of the host language\<close>

subsection \<open>Strings\<close>

text \<open>
  A JavaScript string is a sequence of UTF-16 code units. The keyword tables of
  \<^verbatim>\<open>processFile\<close> hold Arabic words, so a string is modelled as the list of its
  code units (natural numbers) and \<^verbatim>\<open>s.length\<close> is the length of the list.
  \<open>ascii\<close> embeds an ASCII literal.
\<close>

type_synonym jsstring = "nat list"

definition ascii :: "string \<Rightarrow> jsstring" where
  "ascii s = map of_char s"

text \<open>\<^verbatim>\<open>s.includes(k)\<close>: \<open>k\<close> occurs in \<open>s\<close> as a contiguous run.\<close>

primrec startsWith :: "jsstring \<Rightarrow> jsstring \<Rightarrow> bool" where
  "startsWith s [] = True"
| "startsWith s (k # ks) = (case s of [] \<Rightarrow> False | c # cs \<Rightarrow> c = k \<and> startsWith cs ks)"

primrec includes_str :: "jsstring \<Rightarrow> jsstring \<Rightarrow> bool" where
  "includes_str [] k = (k = [])"
| "includes_str (c # cs) k = (startsWith (c # cs) k \<or> includes_str cs k)"

text \<open>The regular expression class \<^verbatim>\<open>\d\<close> is the ASCII digits.\<close>

definition isDigit :: "nat \<Rightarrow> bool" where
  "isDigit c = (48 \<le> c \<and> c \<le> 57)"

text \<open>
  \<^verbatim>\<open>/\d{4}-\d{2}-\d{2}/\<close> tried at the start of a string (\<open>datePatternAt\<close>) and, as
  \<^verbatim>\<open>String.prototype.match\<close> does for a pattern without anchors, at every position
  (\<open>matchesDatePattern\<close>).
\<close>

definition datePatternAt :: "jsstring \<Rightarrow> bool" where
  "datePatternAt s =
     (10 \<le> length s \<and> isDigit (s ! 0) \<and> isDigit (s ! 1) \<and> isDigit (s ! 2) \<and> isDigit (s ! 3)
      \<and> s ! 4 = 45 \<and> isDigit (s ! 5) \<and> isDigit (s ! 6) \<and> s ! 7 = 45
      \<and> isDigit (s ! 8) \<and> isDigit (s ! 9))"

primrec matchesDatePattern :: "jsstring \<Rightarrow> bool" where
  "matchesDatePattern [] = False"
| "matchesDatePattern (c # cs) = (datePatternAt (c # cs) \<or> matchesDatePattern cs)"

text \<open>\<^verbatim>\<open>rawPrice.replace(/[^0-9.]/g, '')\<close> keeps the digits and the full stops.\<close>

definition stripNonNumeric :: "jsstring \<Rightarrow> jsstring" where
  "stripNonNumeric s = filter (\<lambda>c. isDigit c \<or> c = 46) s"

text \<open>\<^verbatim>\<open>Array.prototype.join(' ')\<close> on the strings of the elements.\<close>

fun joinSpace :: "jsstring list \<Rightarrow> jsstring" where
  "joinSpace [] = []"
| "joinSpace [x] = x"
| "joinSpace (x # y # ys) = x @ [32] @ joinSpace (y # ys)"

subsection \<open>Numbers\<close>

text \<open>
  A JavaScript number is a binary64 float. The model keeps \<^verbatim>\<open>NaN\<close>, which the import
  loop produces and tests for, and represents every other number by the rational it
  denotes: arithmetic is exact (no rounding, no overflow to infinity). Sums are written
  as left folds in the order the source adds, so no reordering is assumed.
\<close>

datatype jsnum = NaN | Num rat

fun jadd :: "jsnum \<Rightarrow> jsnum \<Rightarrow> jsnum" where
  "jadd (Num a) (Num b) = Num (a + b)"
| "jadd _ _ = NaN"

fun jsub :: "jsnum \<Rightarrow> jsnum \<Rightarrow> jsnum" where
  "jsub (Num a) (Num b) = Num (a - b)"
| "jsub _ _ = NaN"

fun jmul :: "jsnum \<Rightarrow> jsnum \<Rightarrow> jsnum" where
  "jmul (Num a) (Num b) = Num (a * b)"
| "jmul _ _ = NaN"

text \<open>
  Division. Every divisor in the modelled code is the constant 1520, a positive array
  length, or a sum the source has just tested to be positive; a zero divisor (an
  infinity or \<^verbatim>\<open>NaN\<close> in JavaScript) is mapped to \<open>NaN\<close>.
\<close>

fun jdiv :: "jsnum \<Rightarrow> jsnum \<Rightarrow> jsnum" where
  "jdiv (Num a) (Num b) = (if b = 0 then NaN else Num (a / b))"
| "jdiv _ _ = NaN"

text \<open>\<^verbatim>\<open>a > b\<close>: false as soon as one side is \<^verbatim>\<open>NaN\<close>.\<close>

fun jgt :: "jsnum \<Rightarrow> jsnum \<Rightarrow> bool" where
  "jgt (Num a) (Num b) = (b < a)"
| "jgt _ _ = False"

fun jge :: "jsnum \<Rightarrow> jsnum \<Rightarrow> bool" where
  "jge (Num a) (Num b) = (b \<le> a)"
| "jge _ _ = False"

text \<open>Truthiness of a number: \<^verbatim>\<open>0\<close> and \<^verbatim>\<open>NaN\<close> are falsy.\<close>

fun truthyNum :: "jsnum \<Rightarrow> bool" where
  "truthyNum (Num a) = (a \<noteq> 0)"
| "truthyNum NaN = False"

fun jabs :: "jsnum \<Rightarrow> jsnum" where
  "jabs (Num a) = Num \<bar>a\<bar>"
| "jabs NaN = NaN"

text \<open>\<^verbatim>\<open>Math.round\<close>: the nearest integer, a tie going up.\<close>

fun jround :: "jsnum \<Rightarrow> jsnum" where
  "jround (Num a) = Num (of_int \<lfloor>a + 1 / 2\<rfloor>)"
| "jround NaN = NaN"

text \<open>
  \<^verbatim>\<open>parseFloat\<close> on the strings it receives here, which \<open>stripNonNumeric\<close> has reduced
  to digits and full stops: the longest prefix \<^verbatim>\<open>digits [. digits]\<close> or
  \<^verbatim>\<open>. digits\<close> is read as a decimal, and a string with no such prefix gives
  \<^verbatim>\<open>NaN\<close>.
\<close>

definition digitsVal :: "jsstring \<Rightarrow> nat" where
  "digitsVal ds = foldl (\<lambda>a c. 10 * a + (c - 48)) 0 ds"

definition parseFloat :: "jsstring \<Rightarrow> jsnum" where
  "parseFloat s =
     (let ip = takeWhile isDigit s;
          r = dropWhile isDigit s;
          fp = (if r \<noteq> [] \<and> hd r = 46 then takeWhile isDigit (tl r) else [])
      in if ip = [] \<and> fp = [] then NaN
         else Num (of_nat (digitsVal ip) + of_nat (digitsVal fp) / 10 ^ length fp))"

subsection \<open>Spreadsheet cells\<close>

text \<open>
  The decoder returns rows of type \<^verbatim>\<open>any[][]\<close>: a cell is a number, a string, a
  boolean, or absent (a hole of the row array, \<^verbatim>\<open>undefined\<close> when read).
\<close>

datatype cell = CNum jsnum | CStr jsstring | CBool bool | CEmpty

text \<open>\<^verbatim>\<open>row[i]\<close>: \<^verbatim>\<open>undefined\<close> outside the row.\<close>

definition cellAt :: "cell list \<Rightarrow> int \<Rightarrow> cell" where
  "cellAt row i = (if 0 \<le> i \<and> i < int (length row) then row ! nat i else CEmpty)"

fun truthy :: "cell \<Rightarrow> bool" where
  "truthy (CNum n) = truthyNum n"
| "truthy (CStr s) = (s \<noteq> [])"
| "truthy (CBool b) = b"
| "truthy CEmpty = False"

subsection \<open>What the runtime supplies\<close>

text \<open>
  Functions of the JavaScript runtime that the source calls and that are not part of the
  repository are parameters of the model: Unicode lower-casing, \<^verbatim>\<open>trim\<close>, the
  number-to-string conversion, \<^verbatim>\<open>new Date(s)\<close> (\<open>None\<close> for an invalid date,
  otherwise the time stamp of \<^verbatim>\<open>getTime()\<close> and the week day of
  \<^verbatim>\<open>getDay()\<close>), the clock behind \<^verbatim>\<open>getToday()\<close>, and the random draws behind
  \<^verbatim>\<open>generateId()\<close> (the identifier of the n-th call).
\<close>

record host =
  toLowerCase :: "jsstring \<Rightarrow> jsstring"
  trim :: "jsstring \<Rightarrow> jsstring"
  numToString :: "jsnum \<Rightarrow> jsstring"
  newDate :: "jsstring \<Rightarrow> (rat \<times> nat) option"
  getToday :: jsstring
  generateId :: "nat \<Rightarrow> jsstring"

text \<open>\<^verbatim>\<open>String(cell)\<close>.\<close>

fun toStr :: "host \<Rightarrow> cell \<Rightarrow> jsstring" where
  "toStr h (CNum n) = numToString h n"
| "toStr h (CStr s) = s"
| "toStr h (CBool b) = (if b then ascii ''true'' else ascii ''false'')"
| "toStr h CEmpty = ascii ''undefined''"

definition getTime :: "host \<Rightarrow> jsstring \<Rightarrow> jsnum" where
  "getTime h s = (case newDate h s of None \<Rightarrow> NaN | Some (ms, wd) \<Rightarrow> Num ms)"

definition getDay :: "host \<Rightarrow> jsstring \<Rightarrow> nat option" where
  "getDay h s = (case newDate h s of None \<Rightarrow> None | Some (ms, wd) \<Rightarrow> Some wd)"

section \<open>The data model\<close>

datatype TransactionStatus = Completed | Pending | Failed

datatype TransactionType = Sale | Expense | Refund | Debt | Cash

datatype Currency = USD | IQD

record InventoryItem =
  i_id :: jsstring
  i_name :: jsstring
  i_category :: jsstring
  i_quantity :: jsnum
  i_minLevel :: jsnum
  i_price :: jsnum
  i_cost :: jsnum

record Transaction =
  t_id :: jsstring
  t_type :: TransactionType
  t_client :: jsstring
  t_clientPhone :: "jsstring option"
  t_itemId :: "jsstring option"
  t_date :: jsstring
  t_time :: jsstring
  t_amount :: jsnum
  t_currency :: Currency
  t_status :: TransactionStatus
  t_method :: jsstring
  t_rawText :: "jsstring option"

definition EXCHANGE_RATE :: jsnum where
  "EXCHANGE_RATE = Num 1520"

section \<open>Import: \<^verbatim>\<open>processFile\<close>\<close>

subsection \<open>Header detection\<close>

text \<open>The four variables of the header search; \<open>-1\<close> is the source's "not found".\<close>

record headerVars =
  headerRowIndex :: int
  nameColIndex :: int
  priceColIndex :: int
  dateColIndex :: int

definition initVars :: headerVars where
  "initVars = \<lparr>headerRowIndex = -1, nameColIndex = -1, priceColIndex = -1, dateColIndex = -1\<rparr>"

text \<open>
  \<^verbatim>\<open>rows[i].join(' ').toLowerCase()\<close>: \<^verbatim>\<open>join\<close> writes an absent element as the
  empty string.
\<close>

definition joinCellStr :: "host \<Rightarrow> cell \<Rightarrow> jsstring" where
  "joinCellStr h c = (if c = CEmpty then [] else toStr h c)"

definition rowStr :: "host \<Rightarrow> cell list \<Rightarrow> jsstring" where
  "rowStr h row = toLowerCase h (joinSpace (map (joinCellStr h) row))"

definition isHeaderRow :: "host \<Rightarrow> cell list \<Rightarrow> bool" where
  "isHeaderRow h row =
     (includes_str (rowStr h row) (ascii ''menu_item_name'') \<or> includes_str (rowStr h row) (ascii ''name''))"

definition cellStr :: "host \<Rightarrow> cell \<Rightarrow> jsstring" where
  "cellStr h c = trim h (toLowerCase h (toStr h c))"

definition isNameHeader :: "host \<Rightarrow> cell \<Rightarrow> bool" where
  "isNameHeader h c =
     (c \<noteq> CEmpty \<and> (cellStr h c = ascii ''menu_item_name'' \<or> cellStr h c = ascii ''name''
        \<or> cellStr h c = ascii ''product''))"

definition isPriceHeader :: "host \<Rightarrow> cell \<Rightarrow> bool" where
  "isPriceHeader h c =
     (c \<noteq> CEmpty \<and> (cellStr h c = ascii ''actual_selling_price'' \<or> cellStr h c = ascii ''price''
        \<or> cellStr h c = ascii ''amount''))"

definition isDateHeader :: "host \<Rightarrow> cell \<Rightarrow> bool" where
  "isDateHeader h c =
     (c \<noteq> CEmpty \<and> (cellStr h c = ascii ''date'' \<or> cellStr h c = ascii ''time''))"

text \<open>
  One step of \<^verbatim>\<open>rows[i].forEach((cell, idx) => ...)\<close>; \<^verbatim>\<open>forEach\<close> does not visit
  the holes of the row.
\<close>

definition mapColumn :: "host \<Rightarrow> nat \<times> cell \<Rightarrow> headerVars \<Rightarrow> headerVars" where
  "mapColumn h p v =
     (let idx = fst p; c = snd p;
          v1 = (if isNameHeader h c then v\<lparr>nameColIndex := int idx\<rparr> else v);
          v2 = (if isPriceHeader h c then v1\<lparr>priceColIndex := int idx\<rparr> else v1)
      in if isDateHeader h c then v2\<lparr>dateColIndex := int idx\<rparr> else v2)"

text \<open>
  The search loop \<^verbatim>\<open>for (i = 0; i < Math.min(rows.length, 10); i++)\<close>, leaving at the
  first row that holds a header keyword.
\<close>

function findHeader :: "host \<Rightarrow> cell list list \<Rightarrow> nat \<Rightarrow> headerVars" where
  "findHeader h rows i =
     (if i < min (length rows) 10
      then (if isHeaderRow h (rows ! i)
            then fold (mapColumn h) (enumerate 0 (rows ! i)) (initVars\<lparr>headerRowIndex := int i\<rparr>)
            else findHeader h rows (Suc i))
      else initVars)"
  by pat_completeness auto
termination
  by (relation "measure (\<lambda>(h, rows, i). min (length rows) 10 - i)") auto

declare findHeader.simps [simp del]

text \<open>The three fallback assignments.\<close>

definition applyFallback :: "headerVars \<Rightarrow> headerVars" where
  "applyFallback v =
     (let v1 = (if nameColIndex v = -1 then v\<lparr>nameColIndex := 3\<rparr> else v);
          v2 = (if priceColIndex v1 = -1 then v1\<lparr>priceColIndex := 8\<rparr> else v1)
      in if dateColIndex v2 = -1 then v2\<lparr>dateColIndex := 0\<rparr> else v2)"

definition locateHeader :: "host \<Rightarrow> cell list list \<Rightarrow> headerVars" where
  "locateHeader h rows = applyFallback (findHeader h rows 0)"

definition startDataRow :: "headerVars \<Rightarrow> int" where
  "startDataRow v = (if headerRowIndex v \<noteq> -1 then headerRowIndex v + 1 else 1)"

subsection \<open>One data row\<close>

definition expenseKeywords :: "jsstring list" where
  "expenseKeywords =
     [[1601, 1575, 1578, 1608, 1585, 1577], [1575, 1610, 1580, 1575, 1585],
      [1585, 1575, 1578, 1576], [1603, 1607, 1585, 1576, 1575, 1569],
      [1575, 1606, 1578, 1585, 1606, 1578], [1589, 1610, 1575, 1606, 1577],
      [1588, 1585, 1575, 1569], [1589, 1585, 1601],
      ascii ''expense'', ascii ''bill'', ascii ''rent'', ascii ''salary'']"

definition debtKeywords :: "jsstring list" where
  "debtKeywords =
     [[1583, 1610, 1606], [1575, 1580, 1604], [1570, 1580, 1604], [1602, 1585, 1590],
      ascii ''debt'', ascii ''credit'']"

text \<open>The default client name, an Arabic phrase of twelve code units.\<close>

definition importedItemName :: jsstring where
  "importedItemName = [1605, 1575, 1583, 1577, 32, 1605, 1587, 1578, 1608, 1585, 1583, 1577]"

text \<open>Step 1, the name: the mapped cell when truthy, else the first plausible string.\<close>

fun isCandidate :: "cell \<Rightarrow> bool" where
  "isCandidate (CStr s) = (2 < length s \<and> \<not> includes_str s [44] \<and> \<not> matchesDatePattern s)"
| "isCandidate _ = False"

definition getName :: "host \<Rightarrow> cell list \<Rightarrow> int \<Rightarrow> jsstring" where
  "getName h row n =
     (if truthy (cellAt row n) then toStr h (cellAt row n)
      else (case find isCandidate row of
              Some (CStr s) \<Rightarrow> s
            | _ \<Rightarrow> importedItemName))"

text \<open>Step 2, the price: a number as it is, a string through \<open>parseFloat\<close>, else 0.\<close>

fun priceOfCell :: "cell \<Rightarrow> jsnum" where
  "priceOfCell (CNum n) = n"
| "priceOfCell (CStr s) = parseFloat (stripNonNumeric s)"
| "priceOfCell (CBool b) = Num 0"
| "priceOfCell CEmpty = Num 0"

definition getPrice :: "cell list \<Rightarrow> int \<Rightarrow> jsnum" where
  "getPrice row p = priceOfCell (cellAt row p)"

text \<open>Step 3, the date.\<close>

definition getDate :: "host \<Rightarrow> cell list \<Rightarrow> int \<Rightarrow> jsstring" where
  "getDate h row d =
     (if truthy (cellAt row d)
      then (let rawDate = toStr h (cellAt row d)
            in if matchesDatePattern rawDate then rawDate else getToday h)
      else getToday h)"

text \<open>Step 4, type and status from the keyword tables, the expense table first.\<close>

definition determineType :: "jsstring \<Rightarrow> TransactionType \<times> TransactionStatus" where
  "determineType lowerName =
     (if list_ex (\<lambda>k. includes_str lowerName k) expenseKeywords then (Expense, Completed)
      else if list_ex (\<lambda>k. includes_str lowerName k) debtKeywords then (Debt, Pending)
      else (Sale, Completed))"

definition matchedItem :: "host \<Rightarrow> InventoryItem list \<Rightarrow> jsstring \<Rightarrow> InventoryItem option" where
  "matchedItem h inventory clientName =
     find (\<lambda>inv. toLowerCase h (i_name inv) = toLowerCase h clientName) inventory"

text \<open>
  The body of the row loop: \<open>None\<close> where the source leaves the iteration with
  \<^verbatim>\<open>continue\<close>, else the record it pushes; \<open>newId\<close> is what \<^verbatim>\<open>generateId()\<close>
  returns for this record.
\<close>

definition classifyRow ::
  "host \<Rightarrow> InventoryItem list \<Rightarrow> headerVars \<Rightarrow> jsstring \<Rightarrow> cell list \<Rightarrow> Transaction option" where
  "classifyRow h inventory v newId row =
     (if row = [] then None
      else
        (let clientName = getName h row (nameColIndex v);
             amount = getPrice row (priceColIndex v);
             finalDate = getDate h row (dateColIndex v)
         in if \<not> truthyNum amount then None
            else
              (let ts = determineType (toLowerCase h clientName)
               in Some \<lparr>t_id = newId, t_type = fst ts, t_client = clientName,
                        t_clientPhone = None,
                        t_itemId = map_option i_id (matchedItem h inventory clientName),
                        t_date = finalDate, t_time = ascii ''12:00'',
                        t_amount = jabs amount, t_currency = IQD, t_status = snd ts,
                        t_method = ascii ''Import'', t_rawText = None\<rparr>)))"

subsection \<open>The batch\<close>

text \<open>
  The row loop over the rows from \<open>startDataRow\<close> on, with the batch \<^verbatim>\<open>newTxs\<close> as
  accumulator; the n-th pushed record takes the n-th identifier.
\<close>

primrec processRows ::
  "host \<Rightarrow> InventoryItem list \<Rightarrow> headerVars \<Rightarrow> cell list list \<Rightarrow> Transaction list \<Rightarrow> Transaction list" where
  "processRows h inventory v [] newTxs = newTxs"
| "processRows h inventory v (row # rest) newTxs =
     processRows h inventory v rest
       (case classifyRow h inventory v (generateId h (length newTxs)) row of
          None \<Rightarrow> newTxs
        | Some tx \<Rightarrow> newTxs @ [tx])"

definition processFile :: "host \<Rightarrow> InventoryItem list \<Rightarrow> cell list list \<Rightarrow> Transaction list" where
  "processFile h inventory rows =
     (let v = locateHeader h rows
      in processRows h inventory v (drop (nat (startDataRow v)) rows) [])"

section \<open>Aggregation\<close>

subsection \<open>Dashboard statistics\<close>

text \<open>\<^verbatim>\<open>val\<close>: the amount in USD, an IQD amount divided by the exchange rate.\<close>

definition normalizedVal :: "Transaction \<Rightarrow> jsnum" where
  "normalizedVal t = (if t_currency t = IQD then jdiv (t_amount t) EXCHANGE_RATE else t_amount t)"

record dashAcc =
  a_totalSalesUSD :: jsnum
  a_totalExpensesUSD :: jsnum
  a_totalDebt :: jsnum
  a_dailyTotals :: "jsnum list"

definition initDashAcc :: dashAcc where
  "initDashAcc =
     \<lparr>a_totalSalesUSD = Num 0, a_totalExpensesUSD = Num 0, a_totalDebt = Num 0,
      a_dailyTotals = replicate 7 (Num 0)\<rparr>"

text \<open>
  The body of \<^verbatim>\<open>filteredTransactions.forEach\<close>. The week day of a valid date is below
  7, so the update of \<^verbatim>\<open>dailyTotals\<close> stays inside the array.
\<close>

definition dashStep :: "host \<Rightarrow> Transaction \<Rightarrow> dashAcc \<Rightarrow> dashAcc" where
  "dashStep h t a =
     (let val = normalizedVal t
      in if (t_type t = Sale \<or> t_type t = Cash) \<and> t_status t = Completed
         then a\<lparr>a_totalSalesUSD := jadd (a_totalSalesUSD a) val,
                a_dailyTotals :=
                  (case getDay h (t_date t) of
                     None \<Rightarrow> a_dailyTotals a
                   | Some d \<Rightarrow> (a_dailyTotals a)[d := jadd (a_dailyTotals a ! d) val])\<rparr>
         else if t_type t = Expense
         then a\<lparr>a_totalExpensesUSD := jadd (a_totalExpensesUSD a) val\<rparr>
         else if t_type t = Debt \<and> t_status t \<noteq> Completed
         then a\<lparr>a_totalDebt := jadd (a_totalDebt a) val\<rparr>
         else a)"

record DashboardStats =
  ds_totalSalesUSD :: jsnum
  ds_totalSalesIQD :: jsnum
  ds_netProfit :: jsnum
  ds_totalDebt :: jsnum
  ds_totalExpenses :: jsnum
  ds_count :: nat
  ds_weeklyData :: "(nat \<times> jsnum) list"

definition dashboardStats :: "host \<Rightarrow> Transaction list \<Rightarrow> DashboardStats" where
  "dashboardStats h filteredTransactions =
     (let a = fold (dashStep h) filteredTransactions initDashAcc
      in \<lparr>ds_totalSalesUSD = a_totalSalesUSD a,
          ds_totalSalesIQD = jmul (a_totalSalesUSD a) EXCHANGE_RATE,
          ds_netProfit = jsub (a_totalSalesUSD a) (a_totalExpensesUSD a),
          ds_totalDebt = jmul (a_totalDebt a) EXCHANGE_RATE,
          ds_totalExpenses = a_totalExpensesUSD a,
          ds_count = length filteredTransactions,
          ds_weeklyData = enumerate 0 (a_dailyTotals a)\<rparr>)"

subsection \<open>Report statistics\<close>


text \<open>
  The four running totals of \<^verbatim>\<open>filtered.forEach\<close>. The maps that feed the charts
  and the rankings are updated in the same branches and never read back into these
  totals.
\<close>

record reportAcc =
  r_revenue :: jsnum
  r_expenses :: jsnum
  r_pendingDebt :: jsnum
  r_collectedDebt :: jsnum

definition initReportAcc :: reportAcc where
  "initReportAcc = \<lparr>r_revenue = Num 0, r_expenses = Num 0, r_pendingDebt = Num 0, r_collectedDebt = Num 0\<rparr>"

definition reportStep :: "Transaction \<Rightarrow> reportAcc \<Rightarrow> reportAcc" where
  "reportStep t a =
     (let val = normalizedVal t
      in if t_type t = Sale \<and> t_status t = Completed
         then a\<lparr>r_revenue := jadd (r_revenue a) val\<rparr>
         else if t_type t = Expense
         then a\<lparr>r_expenses := jadd (r_expenses a) val\<rparr>
         else if t_type t = Debt
         then (if t_status t = Pending
               then a\<lparr>r_pendingDebt := jadd (r_pendingDebt a) val\<rparr>
               else if t_status t = Completed
               then a\<lparr>r_collectedDebt := jadd (r_collectedDebt a) val,
                      r_revenue := jadd (r_revenue a) val\<rparr>
               else a)
         else a)"





subsection \<open>Chart sampling: \<^verbatim>\<open>optimizeChartData\<close>\<close>

record ChartPoint =
  c_fullDate :: jsstring
  c_date :: jsstring
  c_revenue :: jsnum
  c_expenses :: jsnum

text \<open>\<^verbatim>\<open>data.slice(a, b)\<close> for \<open>a \<le> b\<close>.\<close>

definition slice :: "'a list \<Rightarrow> nat \<Rightarrow> nat \<Rightarrow> 'a list" where
  "slice xs a b = take (b - a) (drop a xs)"

text \<open>
  \<^verbatim>\<open>Math.ceil(data.length / limit)\<close> for a limit that is a natural number. For the
  limit 0 the quotient is infinite and one window holds the whole series, which a
  window of the length of the series gives as well.
\<close>

definition windowSizeOf :: "nat \<Rightarrow> nat \<Rightarrow> nat" where
  "windowSizeOf len limit = (if limit = 0 then len else (len + limit - 1) div limit)"

text \<open>The point pushed for a non-empty window.\<close>

definition avgPoint :: "ChartPoint list \<Rightarrow> ChartPoint" where
  "avgPoint window =
     \<lparr>c_fullDate = c_fullDate (hd window),
      c_date = c_date (hd window),
      c_revenue = jround (jdiv (foldl (\<lambda>sum item. jadd sum (c_revenue item)) (Num 0) window)
                              (Num (of_nat (length window)))),
      c_expenses = jround (jdiv (foldl (\<lambda>sum item. jadd sum (c_expenses item)) (Num 0) window)
                               (Num (of_nat (length window))))\<rparr>"

text \<open>
  The loop \<^verbatim>\<open>for (i = 0; i < data.length; i += windowSize)\<close>. The window size does
  not change during the loop; the model evaluates its expression in each round.
\<close>

function optimizeLoop :: "ChartPoint list \<Rightarrow> nat \<Rightarrow> nat \<Rightarrow> ChartPoint list" where
  "optimizeLoop data limit i =
     (if i < length data
      then (if slice data i (i + windowSizeOf (length data) limit) = []
            then optimizeLoop data limit (i + windowSizeOf (length data) limit)
            else avgPoint (slice data i (i + windowSizeOf (length data) limit))
                 # optimizeLoop data limit (i + windowSizeOf (length data) limit))
      else [])"
  by pat_completeness auto
termination
proof (relation "measure (\<lambda>(data, limit, i). length data - i)")
  show "wf (measure (\<lambda>(data, limit, i). length data - i))" by simp
next
  fix data :: "ChartPoint list" and limit i :: nat
  assume less: "i < length data"
  then have pos: "0 < length data" by (cases data) simp_all
  have "limit \<le> length data + limit - 1" using pos by arith
  then have "0 < windowSizeOf (length data) limit"
    using pos unfolding windowSizeOf_def by (simp only: div_greater_zero_iff split: if_split) simp
  then show "((data, limit, i + windowSizeOf (length data) limit), (data, limit, i))
      \<in> measure (\<lambda>(data, limit, i). length data - i)"
    using less by simp
  then show "((data, limit, i + windowSizeOf (length data) limit), (data, limit, i))
      \<in> measure (\<lambda>(data, limit, i). length data - i)" .
qed

declare optimizeLoop.simps [simp del]

definition optimizeChartData :: "ChartPoint list \<Rightarrow> nat \<Rightarrow> ChartPoint list" where
  "optimizeChartData data limit = (if length data \<le> limit then data else optimizeLoop data limit 0)"

text \<open>The call in \<^verbatim>\<open>reportStats\<close>: at most 100 points.\<close>

definition chartData :: "ChartPoint list \<Rightarrow> ChartPoint list" where
  "chartData rawChartData = optimizeChartData rawChartData 100"

section \<open>Debts\<close>

subsection \<open>Grouping: \<^verbatim>\<open>debtList\<close>\<close>

record debtEntry =
  g_total :: jsnum
  g_lastDate :: jsstring
  g_phone :: jsstring
  g_count :: nat

record DebtSummary =
  d_name :: jsstring
  d_total :: jsnum
  d_lastDate :: jsstring
  d_phone :: jsstring
  d_count :: nat

definition isPendingDebt :: "Transaction \<Rightarrow> bool" where
  "isPendingDebt t = (t_type t = Debt \<and> t_status t = Pending)"

text \<open>\<^verbatim>\<open>t.clientPhone || ''\<close> and the test \<^verbatim>\<open>if (t.clientPhone)\<close>.\<close>

fun phoneOr :: "jsstring option \<Rightarrow> jsstring" where
  "phoneOr None = []"
| "phoneOr (Some s) = s"

fun truthyPhone :: "jsstring option \<Rightarrow> bool" where
  "truthyPhone None = False"
| "truthyPhone (Some s) = (s \<noteq> [])"

text \<open>
  The \<^verbatim>\<open>Map\<close> is an association list in insertion order: \<open>AList.update\<close> replaces
  the entry of a key where it stands and appends a new key, as \<^verbatim>\<open>Map.set\<close> does.
  Two \<^verbatim>\<open>Date\<close> objects are compared by their time stamps.
\<close>

definition groupStep :: "host \<Rightarrow> Transaction \<Rightarrow> (jsstring \<times> debtEntry) list \<Rightarrow> (jsstring \<times> debtEntry) list" where
  "groupStep h t grouped =
     (let existing = (case map_of grouped (t_client t) of
                        Some e \<Rightarrow> e
                      | None \<Rightarrow> \<lparr>g_total = Num 0, g_lastDate = t_date t,
                                 g_phone = phoneOr (t_clientPhone t), g_count = 0\<rparr>);
          e1 = existing\<lparr>g_total := jadd (g_total existing) (t_amount t),
                        g_count := g_count existing + 1\<rparr>;
          e2 = (if jgt (getTime h (t_date t)) (getTime h (g_lastDate e1))
                then e1\<lparr>g_lastDate := t_date t\<rparr> else e1);
          e3 = (if truthyPhone (t_clientPhone t)
                then e2\<lparr>g_phone := phoneOr (t_clientPhone t)\<rparr> else e2)
      in AList.update (t_client t) e3 grouped)"

definition toSummary :: "jsstring \<times> debtEntry \<Rightarrow> DebtSummary" where
  "toSummary p =
     \<lparr>d_name = fst p, d_total = g_total (snd p), d_lastDate = g_lastDate (snd p),
      d_phone = g_phone (snd p), d_count = g_count (snd p)\<rparr>"

definition debtList :: "host \<Rightarrow> Transaction list \<Rightarrow> DebtSummary list" where
  "debtList h transactions =
     map toSummary (fold (groupStep h) (filter isPendingDebt transactions) [])"

subsection \<open>Settlement: \<^verbatim>\<open>handleSettleClientDebt\<close>\<close>

text \<open>
  The new value of the \<^verbatim>\<open>transactions\<close> state; \<open>confirmed\<close> is the answer to the
  \<^verbatim>\<open>confirm\<close> dialogue. The state the updater receives is the state the handler
  read (one writer), and \<^verbatim>\<open>getToday()\<close> gives one date during the call. The writes
  of the updated records to the external store are not part of the model.
\<close>

definition handleSettleClientDebt :: "host \<Rightarrow> bool \<Rightarrow> jsstring \<Rightarrow> Transaction list \<Rightarrow> Transaction list" where
  "handleSettleClientDebt h confirmed clientName transactions =
     (if confirmed
      then (let clientTxs = filter (\<lambda>t. t_client t = clientName \<and> t_type t = Debt \<and> t_status t = Pending)
                              transactions;
                updatedTxs = map (\<lambda>t. t\<lparr>t_status := Completed, t_date := getToday h\<rparr>) clientTxs
            in map (\<lambda>t. case find (\<lambda>u. t_id u = t_id t) updatedTxs of
                           Some updated \<Rightarrow> updated
                         | None \<Rightarrow> t)
                 transactions)
      else transactions)"

section \<open>Auxiliary definitions for the statements\<close>

text \<open>
  A string of the shape \<^verbatim>\<open>YYYY-MM-DD\<close> and nothing else: ten characters, digits
  around two hyphens.
\<close>

definition isYMD :: "jsstring \<Rightarrow> bool" where
  "isYMD s = (length s = 10 \<and> datePatternAt s)"

text \<open>
  A concrete runtime for evaluating the model on examples. On the ASCII and Arabic
  strings of the examples it agrees with JavaScript: lower-casing changes the letters
  A to Z only, \<^verbatim>\<open>trim\<close> removes blanks at both ends, and the dates of the examples
  are known to \<^verbatim>\<open>new Date\<close> with their UTC time stamps and week days; numbers are
  written out for the two numeric cells of the examples. The clock shows 2026-11-02.
\<close>

definition lowerAscii :: "jsstring \<Rightarrow> jsstring" where
  "lowerAscii s = map (\<lambda>c. if 65 \<le> c \<and> c \<le> 90 then c + 32 else c) s"

definition trimBlanks :: "jsstring \<Rightarrow> jsstring" where
  "trimBlanks s = rev (dropWhile (\<lambda>c. c = 32) (rev (dropWhile (\<lambda>c. c = 32) s)))"

definition sampleDates :: "(jsstring \<times> rat \<times> nat) list" where
  "sampleDates =
     [(ascii ''2024-01-01'', 1704067200000, 1),
      (ascii ''2024-01-02'', 1704153600000, 2),
      (ascii ''2024-01-03'', 1704240000000, 3),
      (ascii ''2026-11-02'', 1793577600000, 1)]"

definition sampleHost :: host where
  "sampleHost =
     \<lparr>toLowerCase = lowerAscii, trim = trimBlanks,
      numToString = (\<lambda>n. if n = Num 5000 then ascii ''5000'' else if n = Num 1200 then ascii ''1200'' else ascii ''NaN''),
      newDate = map_of sampleDates,
      getToday = ascii ''2026-11-02'',
      generateId = (\<lambda>n. ascii ''TX-100'' @ [48 + n mod 10])\<rparr>"

text \<open>Example grids.\<close>

definition exampleNoHeader :: "cell list list" where
  "exampleNoHeader = [[CStr (ascii ''report''), CNum (Num 5000)], [CStr (ascii ''Acme''), CStr (ascii ''1200'')]]"

definition examplePartialHeader :: "cell list list" where
  "examplePartialHeader =
     [[CStr (ascii ''Sales'')], [CStr (ascii ''qty''), CStr (ascii ''Product''), CStr (ascii '' NAME '')],
      [CStr (ascii ''x'')]]"

text \<open>
  Two grids in which row 0 would give a record if it were classified: one without a
  header row and wide enough for the fallback columns, one whose header row is row 1.
\<close>

definition exampleWide :: "cell list list" where
  "exampleWide =
     [[CStr (ascii ''x''), CEmpty, CEmpty, CStr (ascii ''Tea''), CEmpty, CEmpty, CEmpty, CEmpty, CNum (Num 5000)],
      [CStr (ascii ''y''), CEmpty, CEmpty, CStr (ascii ''Rice''), CEmpty, CEmpty, CEmpty, CEmpty, CNum (Num 1200)]]"

definition exampleLateHeader :: "cell list list" where
  "exampleLateHeader =
     [[CStr (ascii ''2024-01-01''), CStr (ascii ''Tea''), CStr (ascii ''5000'')],
      [CStr (ascii ''date''), CStr (ascii ''name''), CStr (ascii ''price'')],
      [CStr (ascii ''2024-01-02''), CStr (ascii ''Acme''), CStr (ascii ''1200'')]]"

text \<open>
  An import grid: the header row of the spec's scenario, its two data rows, a row whose
  name holds an expense and a debt keyword with a negative numeric price, and a debt row
  with a formatted price and no date.
\<close>

definition exampleImport :: "cell list list" where
  "exampleImport =
     [[CStr (ascii ''date''), CStr (ascii ''name''), CStr (ascii ''price'')],
      [CStr (ascii ''2024-01-01''),
       CStr [1601, 1575, 1578, 1608, 1585, 1577, 32, 1603, 1607, 1585, 1576, 1575, 1569],
       CStr (ascii ''5000'')],
      [CStr (ascii ''2024-01-02''), CStr (ascii ''Acme''), CStr (ascii ''1200'')],
      [CStr (ascii ''2024-01-03''), CStr (ascii ''Rent debt''), CNum (Num (- 300))],
      [CStr (ascii ''n/a''), CStr (ascii ''credit Ali''), CStr (ascii ''1,234.56 IQD'')]]"

text \<open>A data row gives a record: it is not empty and its amount is truthy.\<close>

definition emits :: "headerVars \<Rightarrow> cell list \<Rightarrow> bool" where
  "emits v row = (row \<noteq> [] \<and> truthyNum (getPrice row (priceColIndex v)))"

text \<open>The groups of transactions the totals range over.\<close>

definition isCompletedSale :: "Transaction \<Rightarrow> bool" where
  "isCompletedSale t = ((t_type t = Sale \<or> t_type t = Cash) \<and> t_status t = Completed)"

definition isOpenDebt :: "Transaction \<Rightarrow> bool" where
  "isOpenDebt t = (t_type t = Debt \<and> t_status t \<noteq> Completed)"

definition isCollectedDebt :: "Transaction \<Rightarrow> bool" where
  "isCollectedDebt t = (t_type t = Debt \<and> t_status t = Completed)"

text \<open>The sum of the normalized amounts, added from the left as the source does.\<close>

definition sumNormalized :: "Transaction list \<Rightarrow> jsnum" where
  "sumNormalized ts = foldl jadd (Num 0) (map normalizedVal ts)"

text \<open>Example transactions: a record with the given fields, and two ledgers.\<close>

definition exampleTx ::
  "jsstring \<Rightarrow> TransactionType \<Rightarrow> jsstring \<Rightarrow> jsstring \<Rightarrow> rat \<Rightarrow> Currency \<Rightarrow> TransactionStatus \<Rightarrow> Transaction" where
  "exampleTx i ty c d a cur st =
     \<lparr>t_id = i, t_type = ty, t_client = c, t_clientPhone = None, t_itemId = None, t_date = d,
      t_time = ascii ''12:00'', t_amount = Num a, t_currency = cur, t_status = st,
      t_method = ascii ''Manual'', t_rawText = None\<rparr>"

definition exampleLedger :: "Transaction list" where
  "exampleLedger =
     [exampleTx (ascii ''TX-1001'') Sale (ascii ''Acme'') (ascii ''2024-01-01'') 100 USD Completed,
      exampleTx (ascii ''TX-1002'') Cash (ascii ''Acme'') (ascii ''2024-01-02'') 1520 IQD Completed,
      exampleTx (ascii ''TX-1003'') Debt (ascii ''Ali'') (ascii ''2024-01-02'') 3040 IQD Pending,
      exampleTx (ascii ''TX-1004'') Debt (ascii ''Ali'') (ascii ''2024-01-03'') 7 USD Completed,
      exampleTx (ascii ''TX-1005'') Debt (ascii ''Sara'') (ascii ''2024-01-03'') 2 USD Failed,
      exampleTx (ascii ''TX-1006'') Expense (ascii ''rent'') (ascii ''2024-01-03'') 50 USD Completed]"


text \<open>The records a settlement of \<open>clientName\<close> changes.\<close>

definition isClientPendingDebt :: "jsstring \<Rightarrow> Transaction \<Rightarrow> bool" where
  "isClientPendingDebt clientName t = (t_client t = clientName \<and> t_type t = Debt \<and> t_status t = Pending)"

text \<open>
  The debt grouper, client by client: the entry a first debt starts from, the change
  one debt makes to the entry of its client, and the same on an optional entry. The
  pending debts of a client, and the last non-empty phone among transactions.
\<close>

definition newEntry :: "Transaction \<Rightarrow> debtEntry" where
  "newEntry t = \<lparr>g_total = Num 0, g_lastDate = t_date t, g_phone = phoneOr (t_clientPhone t), g_count = 0\<rparr>"

definition entryStep :: "host \<Rightarrow> Transaction \<Rightarrow> debtEntry \<Rightarrow> debtEntry" where
  "entryStep h t existing =
     (let e1 = existing\<lparr>g_total := jadd (g_total existing) (t_amount t),
                        g_count := g_count existing + 1\<rparr>;
          e2 = (if jgt (getTime h (t_date t)) (getTime h (g_lastDate e1))
                then e1\<lparr>g_lastDate := t_date t\<rparr> else e1)
      in if truthyPhone (t_clientPhone t)
         then e2\<lparr>g_phone := phoneOr (t_clientPhone t)\<rparr> else e2)"

definition optStep :: "host \<Rightarrow> Transaction \<Rightarrow> debtEntry option \<Rightarrow> debtEntry option" where
  "optStep h t eo = Some (entryStep h t (case eo of Some e \<Rightarrow> e | None \<Rightarrow> newEntry t))"

definition debtsOf :: "jsstring \<Rightarrow> Transaction list \<Rightarrow> Transaction list" where
  "debtsOf c txs = filter (\<lambda>t. t_client t = c) (filter isPendingDebt txs)"

definition lastPhone :: "Transaction list \<Rightarrow> jsstring" where
  "lastPhone ts =
     (let ps = filter (\<lambda>p. p \<noteq> []) (map (\<lambda>t. phoneOr (t_clientPhone t)) ts)
      in if ps = [] then [] else last ps)"

text \<open>
  Example debts: three pending debts of Ali on three days, not in date order, one with
  a phone number, beside other records; and two pending debts of one client in two
  currencies.
\<close>

definition exampleDebts :: "Transaction list" where
  "exampleDebts =
     [exampleTx (ascii ''TX-2001'') Debt (ascii ''Ali'') (ascii ''2024-01-02'') 20 USD Pending,
      exampleTx (ascii ''TX-2002'') Debt (ascii ''Sara'') (ascii ''2024-01-02'') 5 USD Pending,
      (exampleTx (ascii ''TX-2003'') Debt (ascii ''Ali'') (ascii ''2024-01-03'') 30 USD Pending)
        \<lparr>t_clientPhone := Some (ascii ''0770'')\<rparr>,
      exampleTx (ascii ''TX-2004'') Debt (ascii ''Ali'') (ascii ''2024-01-01'') 10 USD Pending,
      exampleTx (ascii ''TX-2005'') Debt (ascii ''Ali'') (ascii ''2024-01-03'') 99 USD Completed,
      exampleTx (ascii ''TX-2006'') Sale (ascii ''Ali'') (ascii ''2024-01-03'') 7 USD Completed]"

text \<open>
  Two records with one identifier, a sale of Bob above a pending debt of Ali; and three
  pending debts of one client, the first with a date that is no calendar date.
\<close>

definition exampleSharedId :: "Transaction list" where
  "exampleSharedId =
     [exampleTx (ascii ''TX-1001'') Sale (ascii ''Bob'') (ascii ''2024-01-02'') 7 USD Completed,
      exampleTx (ascii ''TX-1001'') Debt (ascii ''Ali'') (ascii ''2024-01-01'') 10 USD Pending]"

definition exampleBadDate :: "Transaction list" where
  "exampleBadDate =
     [exampleTx (ascii ''TX-4001'') Debt (ascii ''Ali'') (ascii ''2024-13-45'') 10 USD Pending,
      exampleTx (ascii ''TX-4002'') Debt (ascii ''Ali'') (ascii ''2024-01-01'') 20 USD Pending,
      exampleTx (ascii ''TX-4003'') Debt (ascii ''Ali'') (ascii ''2024-01-03'') 30 USD Pending]"

definition exampleMixed :: "Transaction list" where
  "exampleMixed =
     [exampleTx (ascii ''TX-3001'') Debt (ascii ''Ali'') (ascii ''2024-01-01'') 10 USD Pending,
      exampleTx (ascii ''TX-3002'') Debt (ascii ''Ali'') (ascii ''2024-01-02'') 1520 IQD Pending]"

text \<open>
  The partition of a series into consecutive windows of \<open>w\<close> points, the last one
  holding what is left.
\<close>

function windows :: "nat \<Rightarrow> 'a list \<Rightarrow> 'a list list" where
  "windows w xs = (if xs = [] \<or> w = 0 then [] else take w xs # windows w (drop w xs))"
  by pat_completeness auto
termination
  by (relation "measure (\<lambda>(w, xs). length xs)") auto

declare windows.simps [simp del]

text \<open>Example chart points and a series of five.\<close>

definition examplePoint :: "rat \<Rightarrow> rat \<Rightarrow> ChartPoint" where
  "examplePoint r e =
     \<lparr>c_fullDate = ascii ''2024-01-01'', c_date = ascii ''01/01'', c_revenue = Num r, c_expenses = Num e\<rparr>"

definition exampleSeries :: "ChartPoint list" where
  "exampleSeries = [examplePoint 1 0, examplePoint 2 0, examplePoint 4 3, examplePoint 8 1, examplePoint 9 2]"

section \<open>Import: the date of a row\<close>

lemma getDate_eq:
  "getDate h row d =
     (if truthy (cellAt row d) \<and> matchesDatePattern (toStr h (cellAt row d))
      then toStr h (cellAt row d) else getToday h)"
  by (simp add: getDate_def Let_def)

lemma matches_of_prefix: "datePatternAt s \<Longrightarrow> matchesDatePattern s"
  by (cases s) (simp_all add: datePatternAt_def)

lemma isYMD_nonempty: "isYMD s \<Longrightarrow> s \<noteq> []"
  by (auto simp: isYMD_def)

lemma classifyRow_date:
  "classifyRow h inventory v newId row = Some tx \<Longrightarrow> t_date tx = getDate h row (dateColIndex v)"
  by (auto simp: classifyRow_def Let_def split: if_splits)

lemma sample_simps:
  "toLowerCase sampleHost = lowerAscii" "trim sampleHost = trimBlanks"
  "getToday sampleHost = ascii ''2026-11-02''" "newDate sampleHost = map_of sampleDates"
  by (simp_all add: sampleHost_def)

text \<open>
  Claim C1, as the code has it. The date of a row is the string form of the cell in the
  date column whenever that cell is truthy and its string form contains, at any
  position, four digits, a hyphen, two digits, a hyphen and two digits; in every other
  case it is the current date. In particular a string cell that is exactly of the shape
  \<^verbatim>\<open>YYYY-MM-DD\<close> is returned unchanged, and the date so extracted is the date of
  the transaction the row gives.
\<close>

theorem getDate_returns_matching_cell:
  "getDate h row d =
     (if truthy (cellAt row d) \<and> matchesDatePattern (toStr h (cellAt row d))
      then toStr h (cellAt row d) else getToday h)
   \<and> (\<forall>s. cellAt row d = CStr s \<and> isYMD s \<longrightarrow> getDate h row d = s)
   \<and> (\<forall>inventory v newId tx. classifyRow h inventory v newId row = Some tx
        \<longrightarrow> t_date tx = getDate h row (dateColIndex v))"
proof (intro conjI allI impI)
  show "getDate h row d =
     (if truthy (cellAt row d) \<and> matchesDatePattern (toStr h (cellAt row d))
      then toStr h (cellAt row d) else getToday h)"
    by (rule getDate_eq)
next
  fix s assume a: "cellAt row d = CStr s \<and> isYMD s"
  then have "matchesDatePattern s" by (simp add: isYMD_def matches_of_prefix)
  with a show "getDate h row d = s"
    by (simp add: getDate_eq isYMD_nonempty)
next
  fix inventory v newId tx
  assume "classifyRow h inventory v newId row = Some tx"
  then show "t_date tx = getDate h row (dateColIndex v)" by (rule classifyRow_date)
qed

text \<open>
  The theorem at two rows: a date cell \<^verbatim>\<open>2024-01-02\<close> is kept, an absent date cell
  gives the day of the clock.
\<close>

theorem getDate_returns_matching_cell_witness:
  "cellAt [CStr (ascii ''2024-01-02''), CStr (ascii ''Acme'')] 0 = CStr (ascii ''2024-01-02'')
   \<and> isYMD (ascii ''2024-01-02'')
   \<and> getDate sampleHost [CStr (ascii ''2024-01-02''), CStr (ascii ''Acme'')] 0 = ascii ''2024-01-02''
   \<and> getDate sampleHost [CEmpty, CStr (ascii ''Acme'')] 0 = ascii ''2026-11-02''"
proof -
  have c: "cellAt [CStr (ascii ''2024-01-02''), CStr (ascii ''Acme'')] 0 = CStr (ascii ''2024-01-02'')"
    by (simp add: cellAt_def)
  have y: "isYMD (ascii ''2024-01-02'')"
    by (simp add: isYMD_def datePatternAt_def isDigit_def ascii_def)
  have e: "getDate sampleHost [CEmpty, CStr (ascii ''Acme'')] 0 = ascii ''2026-11-02''"
    using getDate_returns_matching_cell [of sampleHost "[CEmpty, CStr (ascii ''Acme'')]" 0]
    by (simp add: cellAt_def sample_simps)
  from getDate_returns_matching_cell [of sampleHost "[CStr (ascii ''2024-01-02''), CStr (ascii ''Acme'')]" 0] c y
  have "getDate sampleHost [CStr (ascii ''2024-01-02''), CStr (ascii ''Acme'')] 0 = ascii ''2024-01-02''"
    by blast
  with c y e show ?thesis by blast
qed

text \<open>
  Claim C1 as the spec words it fails: the cell \<^verbatim>\<open>2024-01-01 10:30\<close> is not of the
  shape \<^verbatim>\<open>YYYY-MM-DD\<close>, yet the extractor returns it and not the current date.
\<close>

theorem getDate_not_only_exact_dates_counterexample:
  "\<not> isYMD (ascii ''2024-01-01 10:30'')
   \<and> getDate sampleHost [CStr (ascii ''2024-01-01 10:30'')] 0 = ascii ''2024-01-01 10:30''
   \<and> getDate sampleHost [CStr (ascii ''2024-01-01 10:30'')] 0 \<noteq> getToday sampleHost"
  by (simp add: isYMD_def getDate_def cellAt_def datePatternAt_def isDigit_def ascii_def sampleHost_def)

section \<open>Import: the header locator\<close>

lemma mapColumn_header [simp]: "headerRowIndex (mapColumn h p v) = headerRowIndex v"
  by (simp add: mapColumn_def Let_def)

lemma fold_mapColumn_header [simp]:
  "headerRowIndex (fold (mapColumn h) ps v) = headerRowIndex v"
  by (induction ps arbitrary: v) simp_all

lemma mapColumn_name:
  "nameColIndex (mapColumn h p v) = (if isNameHeader h (snd p) then int (fst p) else nameColIndex v)"
  by (simp add: mapColumn_def Let_def)

lemma mapColumn_price:
  "priceColIndex (mapColumn h p v) = (if isPriceHeader h (snd p) then int (fst p) else priceColIndex v)"
  by (simp add: mapColumn_def Let_def)

lemma mapColumn_date:
  "dateColIndex (mapColumn h p v) = (if isDateHeader h (snd p) then int (fst p) else dateColIndex v)"
  by (simp add: mapColumn_def Let_def)

lemma fold_mapColumn_name_none:
  "\<forall>c\<in>set row. \<not> isNameHeader h c \<Longrightarrow>
   nameColIndex (fold (mapColumn h) (enumerate n row) v) = nameColIndex v"
  by (induction row arbitrary: n v) (simp_all add: mapColumn_name)

lemma fold_mapColumn_price_none:
  "\<forall>c\<in>set row. \<not> isPriceHeader h c \<Longrightarrow>
   priceColIndex (fold (mapColumn h) (enumerate n row) v) = priceColIndex v"
  by (induction row arbitrary: n v) (simp_all add: mapColumn_price)

lemma fold_mapColumn_date_none:
  "\<forall>c\<in>set row. \<not> isDateHeader h c \<Longrightarrow>
   dateColIndex (fold (mapColumn h) (enumerate n row) v) = dateColIndex v"
  by (induction row arbitrary: n v) (simp_all add: mapColumn_date)

text \<open>Where a cell matches, the last matching cell gives the index.\<close>

lemma fold_mapColumn_name_last:
  "k < length row \<Longrightarrow> isNameHeader h (row ! k) \<Longrightarrow>
   \<forall>j. k < j \<and> j < length row \<longrightarrow> \<not> isNameHeader h (row ! j) \<Longrightarrow>
   nameColIndex (fold (mapColumn h) (enumerate n row) v) = int (n + k)"
proof (induction row arbitrary: n v k)
  case Nil
  then show ?case by simp
next
  case (Cons c row)
  show ?case
  proof (cases k)
    case 0
    have "\<forall>c'\<in>set row. \<not> isNameHeader h c'"
    proof
      fix c' assume "c' \<in> set row"
      then obtain j where "j < length row" "row ! j = c'" by (auto simp: in_set_conv_nth)
      with Cons.prems(3) [rule_format, of "Suc j"] 0 show "\<not> isNameHeader h c'" by auto
    qed
    then show ?thesis using 0 Cons.prems(2)
      by (simp add: fold_mapColumn_name_none mapColumn_name)
  next
    case (Suc k')
    have "nameColIndex (fold (mapColumn h) (enumerate (Suc n) row) (mapColumn h (n, c) v)) = int (Suc n + k')"
    proof (rule Cons.IH)
      show "k' < length row" using Cons.prems(1) Suc by simp
      show "isNameHeader h (row ! k')" using Cons.prems(2) Suc by simp
      show "\<forall>j. k' < j \<and> j < length row \<longrightarrow> \<not> isNameHeader h (row ! j)"
        using Cons.prems(3) Suc by (metis Suc_less_eq length_Cons nth_Cons_Suc)
    qed
    then show ?thesis using Suc by simp
  qed
qed

lemma findHeader_none:
  "\<forall>j. i \<le> j \<and> j < min (length rows) 10 \<longrightarrow> \<not> isHeaderRow h (rows ! j) \<Longrightarrow>
   findHeader h rows i = initVars"
proof (induction h rows i rule: findHeader.induct)
  case (1 h rows i)
  show ?case
  proof (cases "i < min (length rows) 10")
    case True
    then have nh: "\<not> isHeaderRow h (rows ! i)" using "1.prems" by auto
    have "findHeader h rows (Suc i) = initVars"
      using "1.IH" [OF True nh] "1.prems" by auto
    then show ?thesis using True nh by (subst findHeader.simps) auto
  next
    case False
    then show ?thesis by (subst findHeader.simps) auto
  qed
qed

lemma findHeader_first:
  "i \<le> k \<Longrightarrow> k < min (length rows) 10 \<Longrightarrow> isHeaderRow h (rows ! k) \<Longrightarrow>
   \<forall>j. i \<le> j \<and> j < k \<longrightarrow> \<not> isHeaderRow h (rows ! j) \<Longrightarrow>
   findHeader h rows i =
     fold (mapColumn h) (enumerate 0 (rows ! k)) (initVars\<lparr>headerRowIndex := int k\<rparr>)"
proof (induction h rows i rule: findHeader.induct)
  case (1 h rows i)
  have lt: "i < min (length rows) 10" using "1.prems" by simp
  show ?case
  proof (cases "i = k")
    case True
    then show ?thesis using lt "1.prems" by (subst findHeader.simps) auto
  next
    case False
    then have nh: "\<not> isHeaderRow h (rows ! i)" using "1.prems" by auto
    have "findHeader h rows (Suc i) =
      fold (mapColumn h) (enumerate 0 (rows ! k)) (initVars\<lparr>headerRowIndex := int k\<rparr>)"
      using "1.IH" [OF lt nh] "1.prems" False by auto
    then show ?thesis using lt nh by (subst findHeader.simps) auto
  qed
qed

lemma applyFallback_fields:
  "headerRowIndex (applyFallback v) = headerRowIndex v"
  "nameColIndex (applyFallback v) = (if nameColIndex v = -1 then 3 else nameColIndex v)"
  "priceColIndex (applyFallback v) = (if priceColIndex v = -1 then 8 else priceColIndex v)"
  "dateColIndex (applyFallback v) = (if dateColIndex v = -1 then 0 else dateColIndex v)"
  by (simp_all add: applyFallback_def Let_def)

lemma locateHeader_none:
  assumes "\<forall>i. i < min (length rows) 10 \<longrightarrow> \<not> isHeaderRow h (rows ! i)"
  shows "locateHeader h rows =
    \<lparr>headerRowIndex = -1, nameColIndex = 3, priceColIndex = 8, dateColIndex = 0\<rparr>"
proof -
  have "findHeader h rows 0 = initVars" using assms by (intro findHeader_none) simp
  then show ?thesis by (simp add: locateHeader_def applyFallback_def initVars_def)
qed

lemma locateHeader_found:
  assumes "k < min (length rows) 10" "isHeaderRow h (rows ! k)"
    "\<forall>j. j < k \<longrightarrow> \<not> isHeaderRow h (rows ! j)"
  shows "locateHeader h rows =
    applyFallback (fold (mapColumn h) (enumerate 0 (rows ! k)) (initVars\<lparr>headerRowIndex := int k\<rparr>))"
  using findHeader_first [of 0 k rows h] assms by (simp add: locateHeader_def)

lemma sample_numToString:
  "numToString sampleHost (Num 5000) = ascii ''5000''" "numToString sampleHost (Num 1200) = ascii ''1200''"
  by (simp_all add: sampleHost_def)

lemmas eval_header =
  isHeaderRow_def rowStr_def joinCellStr_def sample_simps sample_numToString lowerAscii_def ascii_def
  isNameHeader_def isPriceHeader_def isDateHeader_def cellStr_def trimBlanks_def

lemma processFile_from_start:
  "startDataRow (locateHeader h rows) = int s \<Longrightarrow>
   processFile h inventory rows = processRows h inventory (locateHeader h rows) (drop s rows) []"
  by (simp add: processFile_def Let_def)

lemmas eval_row =
  classifyRow_def getName_def getPrice_def getDate_def cellAt_def determineType_def
  matchedItem_def parseFloat_def stripNonNumeric_def digitsVal_def isDigit_def
  expenseKeywords_def debtKeywords_def datePatternAt_def

lemma exampleWide_none:
  "\<forall>i. i < min (length exampleWide) 10 \<longrightarrow> \<not> isHeaderRow sampleHost (exampleWide ! i)"
  by (simp add: exampleWide_def less_Suc_eq numeral_2_eq_2 all_conj_distrib eval_header)

lemma exampleWide_rows:
  "map (\<lambda>tx. (t_client tx, t_amount tx, t_date tx))
     (processRows sampleHost []
        \<lparr>headerRowIndex = -1, nameColIndex = 3, priceColIndex = 8, dateColIndex = 0\<rparr>
        (drop 1 exampleWide) []) = [(ascii ''Rice'', Num 1200, ascii ''2026-11-02'')]"
  by (simp add: exampleWide_def eval_row sample_simps lowerAscii_def ascii_def)

lemma exampleWide_row0:
  "map_option (\<lambda>tx. (t_client tx, t_amount tx))
     (classifyRow sampleHost []
        \<lparr>headerRowIndex = -1, nameColIndex = 3, priceColIndex = 8, dateColIndex = 0\<rparr>
        (ascii ''TX-1000'') (exampleWide ! 0)) = Some (ascii ''Tea'', Num 5000)"
  by (simp add: exampleWide_def eval_row sample_simps lowerAscii_def ascii_def)

lemma exampleLateHeader_first:
  "1 < min (length exampleLateHeader) 10 \<and> isHeaderRow sampleHost (exampleLateHeader ! 1)
     \<and> (\<forall>j. j < 1 \<longrightarrow> \<not> isHeaderRow sampleHost (exampleLateHeader ! j))"
  by (simp add: exampleLateHeader_def eval_header)

lemma exampleLateHeader_vars:
  "locateHeader sampleHost exampleLateHeader =
     \<lparr>headerRowIndex = 1, nameColIndex = 1, priceColIndex = 2, dateColIndex = 0\<rparr>"
  using locateHeader_found [of 1 exampleLateHeader sampleHost] exampleLateHeader_first
  by (simp add: exampleLateHeader_def eval_header mapColumn_def initVars_def applyFallback_def)

lemma exampleLateHeader_rows:
  "map (\<lambda>tx. (t_client tx, t_amount tx, t_date tx))
     (processRows sampleHost []
        \<lparr>headerRowIndex = 1, nameColIndex = 1, priceColIndex = 2, dateColIndex = 0\<rparr>
        (drop (Suc 1) exampleLateHeader) []) = [(ascii ''Acme'', Num 1200, ascii ''2024-01-02'')]"
  by (simp add: exampleLateHeader_def eval_row sample_simps lowerAscii_def ascii_def)

lemma exampleLateHeader_row0:
  "map_option (\<lambda>tx. (t_client tx, t_amount tx))
     (classifyRow sampleHost []
        \<lparr>headerRowIndex = 1, nameColIndex = 1, priceColIndex = 2, dateColIndex = 0\<rparr>
        (ascii ''TX-1000'') (exampleLateHeader ! 0)) = Some (ascii ''Tea'', Num 5000)"
  by (simp add: exampleLateHeader_def eval_row sample_simps lowerAscii_def ascii_def)

text \<open>
  Claim C5. When none of the first \<open>min 10 (length rows)\<close> rows is a header row, the
  column indices are the fallbacks 3 (name), 8 (price) and 0 (date), the first data row
  is row 1, and the batch of \<^verbatim>\<open>processFile\<close> is what the row loop gives on the rows
  from row 1 on: row 0 is not classified. When row \<open>k\<close> is the first header row, the
  first data row is \<open>k + 1\<close> and the batch is what the row loop gives on the rows from
  row \<open>k + 1\<close> on; each column that no cell of the header row names takes its fallback
  index, and a column that is named takes the index of the last cell naming it.
\<close>

theorem locateHeader_fallback_policy:
  "((\<forall>i. i < min (length rows) 10 \<longrightarrow> \<not> isHeaderRow h (rows ! i)) \<longrightarrow>
      headerRowIndex (locateHeader h rows) = -1
      \<and> nameColIndex (locateHeader h rows) = 3
      \<and> priceColIndex (locateHeader h rows) = 8
      \<and> dateColIndex (locateHeader h rows) = 0
      \<and> startDataRow (locateHeader h rows) = 1
      \<and> processFile h inventory rows =
          processRows h inventory (locateHeader h rows) (drop 1 rows) [])
   \<and> (\<forall>k. k < min (length rows) 10 \<and> isHeaderRow h (rows ! k)
          \<and> (\<forall>j. j < k \<longrightarrow> \<not> isHeaderRow h (rows ! j)) \<longrightarrow>
      headerRowIndex (locateHeader h rows) = int k
      \<and> startDataRow (locateHeader h rows) = int k + 1
      \<and> processFile h inventory rows =
          processRows h inventory (locateHeader h rows) (drop (Suc k) rows) []
      \<and> ((\<forall>c\<in>set (rows ! k). \<not> isNameHeader h c) \<longrightarrow> nameColIndex (locateHeader h rows) = 3)
      \<and> ((\<forall>c\<in>set (rows ! k). \<not> isPriceHeader h c) \<longrightarrow> priceColIndex (locateHeader h rows) = 8)
      \<and> ((\<forall>c\<in>set (rows ! k). \<not> isDateHeader h c) \<longrightarrow> dateColIndex (locateHeader h rows) = 0)
      \<and> (\<forall>m. m < length (rows ! k) \<and> isNameHeader h (rows ! k ! m)
            \<and> (\<forall>j. m < j \<and> j < length (rows ! k) \<longrightarrow> \<not> isNameHeader h (rows ! k ! j)) \<longrightarrow>
          nameColIndex (locateHeader h rows) = int m))"
proof (intro conjI allI impI)
  assume a: "\<forall>i. i < min (length rows) 10 \<longrightarrow> \<not> isHeaderRow h (rows ! i)"
  note e = locateHeader_none [OF a]
  show "headerRowIndex (locateHeader h rows) = -1" by (simp add: e)
  show "nameColIndex (locateHeader h rows) = 3" by (simp add: e)
  show "priceColIndex (locateHeader h rows) = 8" by (simp add: e)
  show "dateColIndex (locateHeader h rows) = 0" by (simp add: e)
  show "startDataRow (locateHeader h rows) = 1" by (simp add: e startDataRow_def)
  have "startDataRow (locateHeader h rows) = int 1" by (simp add: e startDataRow_def)
  then show "processFile h inventory rows =
      processRows h inventory (locateHeader h rows) (drop 1 rows) []"
    by (rule processFile_from_start)
next
  fix k
  assume a: "k < min (length rows) 10 \<and> isHeaderRow h (rows ! k)
          \<and> (\<forall>j. j < k \<longrightarrow> \<not> isHeaderRow h (rows ! j))"
  then have e: "locateHeader h rows =
    applyFallback (fold (mapColumn h) (enumerate 0 (rows ! k)) (initVars\<lparr>headerRowIndex := int k\<rparr>))"
    by (intro locateHeader_found) simp_all
  show hi: "headerRowIndex (locateHeader h rows) = int k"
    by (simp add: e applyFallback_fields)
  show "startDataRow (locateHeader h rows) = int k + 1"
    using hi by (simp add: startDataRow_def)
  have "startDataRow (locateHeader h rows) = int (Suc k)"
    using hi by (simp add: startDataRow_def)
  then show "processFile h inventory rows =
      processRows h inventory (locateHeader h rows) (drop (Suc k) rows) []"
    by (rule processFile_from_start)
  {
    assume "\<forall>c\<in>set (rows ! k). \<not> isNameHeader h c"
    then show "nameColIndex (locateHeader h rows) = 3"
      by (simp add: e applyFallback_fields fold_mapColumn_name_none initVars_def)
  }
  {
    assume "\<forall>c\<in>set (rows ! k). \<not> isPriceHeader h c"
    then show "priceColIndex (locateHeader h rows) = 8"
      by (simp add: e applyFallback_fields fold_mapColumn_price_none initVars_def)
  }
  {
    assume "\<forall>c\<in>set (rows ! k). \<not> isDateHeader h c"
    then show "dateColIndex (locateHeader h rows) = 0"
      by (simp add: e applyFallback_fields fold_mapColumn_date_none initVars_def)
  }
  {
    fix m
    assume b: "m < length (rows ! k) \<and> isNameHeader h (rows ! k ! m)
            \<and> (\<forall>j. m < j \<and> j < length (rows ! k) \<longrightarrow> \<not> isNameHeader h (rows ! k ! j))"
    then have "nameColIndex (fold (mapColumn h) (enumerate 0 (rows ! k)) (initVars\<lparr>headerRowIndex := int k\<rparr>)) = int (0 + m)"
      by (intro fold_mapColumn_name_last) simp_all
    then show "nameColIndex (locateHeader h rows) = int m"
      by (simp add: e applyFallback_fields)
  }
qed

text \<open>
  The theorem on four grids. Without a header row the fallbacks apply, and in the wide
  grid only row 1 gives a record although row 0, classified with the same columns, would
  give one. A header row in row 1 that names the name column twice and neither the price
  nor the date column. A header row in row 1 above which row 0 would give a record: the
  batch holds the record of row 2 only.
\<close>

theorem locateHeader_fallback_policy_witness:
  "locateHeader sampleHost exampleNoHeader =
     \<lparr>headerRowIndex = -1, nameColIndex = 3, priceColIndex = 8, dateColIndex = 0\<rparr>
   \<and> startDataRow (locateHeader sampleHost exampleNoHeader) = 1
   \<and> locateHeader sampleHost examplePartialHeader =
     \<lparr>headerRowIndex = 1, nameColIndex = 2, priceColIndex = 8, dateColIndex = 0\<rparr>
   \<and> startDataRow (locateHeader sampleHost examplePartialHeader) = 2
   \<and> locateHeader sampleHost exampleWide =
     \<lparr>headerRowIndex = -1, nameColIndex = 3, priceColIndex = 8, dateColIndex = 0\<rparr>
   \<and> map_option (\<lambda>tx. (t_client tx, t_amount tx))
        (classifyRow sampleHost [] (locateHeader sampleHost exampleWide) (ascii ''TX-1000'') (exampleWide ! 0))
       = Some (ascii ''Tea'', Num 5000)
   \<and> map (\<lambda>tx. (t_client tx, t_amount tx, t_date tx)) (processFile sampleHost [] exampleWide)
       = [(ascii ''Rice'', Num 1200, ascii ''2026-11-02'')]
   \<and> startDataRow (locateHeader sampleHost exampleLateHeader) = 2
   \<and> map_option (\<lambda>tx. (t_client tx, t_amount tx))
        (classifyRow sampleHost [] (locateHeader sampleHost exampleLateHeader) (ascii ''TX-1000'')
           (exampleLateHeader ! 0))
       = Some (ascii ''Tea'', Num 5000)
   \<and> map (\<lambda>tx. (t_client tx, t_amount tx, t_date tx)) (processFile sampleHost [] exampleLateHeader)
       = [(ascii ''Acme'', Num 1200, ascii ''2024-01-02'')]"
proof -
  let ?v = "locateHeader sampleHost exampleNoHeader"
  let ?w = "locateHeader sampleHost examplePartialHeader"
  let ?x = "locateHeader sampleHost exampleWide"
  let ?y = "locateHeader sampleHost exampleLateHeader"
  have eqI: "\<And>u a b c d. headerRowIndex u = a \<Longrightarrow> nameColIndex u = b \<Longrightarrow> priceColIndex u = c \<Longrightarrow>
      dateColIndex u = d \<Longrightarrow> u = \<lparr>headerRowIndex = a, nameColIndex = b, priceColIndex = c, dateColIndex = d\<rparr>"
    by simp
  have none: "\<forall>i. i < min (length exampleNoHeader) 10 \<longrightarrow> \<not> isHeaderRow sampleHost (exampleNoHeader ! i)"
    by (simp add: exampleNoHeader_def less_Suc_eq numeral_2_eq_2 all_conj_distrib eval_header)
  from locateHeader_fallback_policy [where h = sampleHost and rows = exampleNoHeader and inventory = "[]",
      THEN conjunct1, THEN mp, OF none]
  have v: "headerRowIndex ?v = -1" "nameColIndex ?v = 3" "priceColIndex ?v = 8"
    "dateColIndex ?v = 0" "startDataRow ?v = 1"
    by blast+
  have first: "1 < min (length examplePartialHeader) 10 \<and> isHeaderRow sampleHost (examplePartialHeader ! 1)
      \<and> (\<forall>j. j < 1 \<longrightarrow> \<not> isHeaderRow sampleHost (examplePartialHeader ! j))"
    by (simp add: examplePartialHeader_def eval_header)
  have noprice: "\<forall>c\<in>set (examplePartialHeader ! 1). \<not> isPriceHeader sampleHost c"
    by (simp add: examplePartialHeader_def eval_header)
  have nodate: "\<forall>c\<in>set (examplePartialHeader ! 1). \<not> isDateHeader sampleHost c"
    by (simp add: examplePartialHeader_def eval_header)
  have name: "2 < length (examplePartialHeader ! 1) \<and> isNameHeader sampleHost (examplePartialHeader ! 1 ! 2)
      \<and> (\<forall>j. 2 < j \<and> j < length (examplePartialHeader ! 1) \<longrightarrow>
            \<not> isNameHeader sampleHost (examplePartialHeader ! 1 ! j))"
    by (simp add: examplePartialHeader_def eval_header)
  note blockw = locateHeader_fallback_policy [where h = sampleHost and rows = examplePartialHeader
      and inventory = "[]", THEN conjunct2, THEN spec, THEN mp, OF first]
  from blockw have w1: "headerRowIndex ?w = int 1" "startDataRow ?w = int 1 + 1"
    by blast+
  from blockw noprice have w2: "priceColIndex ?w = 8" by blast
  from blockw nodate have w3: "dateColIndex ?w = 0" by blast
  from blockw name have w4: "nameColIndex ?w = int 2" by blast
  have w: "?w = \<lparr>headerRowIndex = 1, nameColIndex = 2, priceColIndex = 8, dateColIndex = 0\<rparr>"
    using w1 w2 w3 w4 by (intro eqI) simp_all
  have ws: "startDataRow ?w = 2" using w1(2) by simp
  from locateHeader_fallback_policy [where h = sampleHost and rows = exampleWide and inventory = "[]",
      THEN conjunct1, THEN mp, OF exampleWide_none]
  have x: "headerRowIndex ?x = -1" "nameColIndex ?x = 3" "priceColIndex ?x = 8" "dateColIndex ?x = 0"
    and xp: "processFile sampleHost [] exampleWide = processRows sampleHost [] ?x (drop 1 exampleWide) []"
    by blast+
  have xv: "?x = \<lparr>headerRowIndex = -1, nameColIndex = 3, priceColIndex = 8, dateColIndex = 0\<rparr>"
    using x by (intro eqI) simp_all
  have x0: "map_option (\<lambda>tx. (t_client tx, t_amount tx))
        (classifyRow sampleHost [] ?x (ascii ''TX-1000'') (exampleWide ! 0)) = Some (ascii ''Tea'', Num 5000)"
    unfolding xv by (rule exampleWide_row0)
  have xb: "map (\<lambda>tx. (t_client tx, t_amount tx, t_date tx)) (processFile sampleHost [] exampleWide)
       = [(ascii ''Rice'', Num 1200, ascii ''2026-11-02'')]"
    unfolding xp unfolding xv by (rule exampleWide_rows)
  note blocky = locateHeader_fallback_policy [where h = sampleHost and rows = exampleLateHeader
      and inventory = "[]", THEN conjunct2, THEN spec, THEN mp, OF exampleLateHeader_first]
  from blocky have y1: "startDataRow ?y = int 1 + 1"
    and yp: "processFile sampleHost [] exampleLateHeader =
        processRows sampleHost [] ?y (drop (Suc 1) exampleLateHeader) []"
    by blast+
  have ys: "startDataRow ?y = 2" using y1 by simp
  have y0: "map_option (\<lambda>tx. (t_client tx, t_amount tx))
        (classifyRow sampleHost [] ?y (ascii ''TX-1000'') (exampleLateHeader ! 0))
       = Some (ascii ''Tea'', Num 5000)"
    unfolding exampleLateHeader_vars by (rule exampleLateHeader_row0)
  have yb: "map (\<lambda>tx. (t_client tx, t_amount tx, t_date tx)) (processFile sampleHost [] exampleLateHeader)
       = [(ascii ''Acme'', Num 1200, ascii ''2024-01-02'')]"
    unfolding yp unfolding exampleLateHeader_vars by (rule exampleLateHeader_rows)
  have vv: "?v = \<lparr>headerRowIndex = -1, nameColIndex = 3, priceColIndex = 8, dateColIndex = 0\<rparr>"
    using v by (intro eqI) simp_all
  show ?thesis
    using vv v(5) w ws xv x0 xb ys y0 yb by (intro conjI)
qed

section \<open>Import: classification of a row\<close>

lemma classifyRow_Some:
  assumes "classifyRow h inventory v newId row = Some tx"
  shows "row \<noteq> []" "truthyNum (getPrice row (priceColIndex v))"
    "t_client tx = getName h row (nameColIndex v)"
    "t_amount tx = jabs (getPrice row (priceColIndex v))"
    "(t_type tx, t_status tx) = determineType (toLowerCase h (getName h row (nameColIndex v)))"
  using assms by (auto simp: classifyRow_def Let_def split: if_splits)

lemma classifyRow_None_iff:
  "classifyRow h inventory v newId row = None \<longleftrightarrow>
     (row = [] \<or> \<not> truthyNum (getPrice row (priceColIndex v)))"
  by (simp add: classifyRow_def Let_def)

lemma processRows_mem:
  "tx \<in> set (processRows h inventory v rows acc) \<Longrightarrow>
   tx \<in> set acc \<or> (\<exists>row\<in>set rows. \<exists>newId. classifyRow h inventory v newId row = Some tx)"
proof (induction rows arbitrary: acc)
  case Nil
  then show ?case by simp
next
  case (Cons row rows)
  let ?r = "classifyRow h inventory v (generateId h (length acc)) row"
  show ?case
  proof (cases ?r)
    case None
    with Cons.prems have "tx \<in> set (processRows h inventory v rows acc)" by simp
    from Cons.IH [OF this] show ?thesis by auto
  next
    case (Some t)
    with Cons.prems have "tx \<in> set (processRows h inventory v rows (acc @ [t]))" by simp
    from Cons.IH [OF this] Some show ?thesis by auto
  qed
qed

lemma processFile_mem:
  assumes "tx \<in> set (processFile h inventory rows)"
  shows "\<exists>row\<in>set rows. \<exists>newId. classifyRow h inventory (locateHeader h rows) newId row = Some tx"
proof -
  let ?v = "locateHeader h rows"
  from assms have "tx \<in> set (processRows h inventory ?v (drop (nat (startDataRow ?v)) rows) [])"
    by (simp add: processFile_def Let_def)
  from processRows_mem [OF this]
  obtain row newId where "row \<in> set (drop (nat (startDataRow ?v)) rows)"
    "classifyRow h inventory ?v newId row = Some tx" by auto
  then show ?thesis using in_set_dropD by fast
qed

lemma determineType_cases:
  "((\<exists>k\<in>set expenseKeywords. includes_str n k) \<longrightarrow> determineType n = (Expense, Completed))
   \<and> (\<not> (\<exists>k\<in>set expenseKeywords. includes_str n k) \<and> (\<exists>k\<in>set debtKeywords. includes_str n k)
        \<longrightarrow> determineType n = (Debt, Pending))
   \<and> (\<not> (\<exists>k\<in>set expenseKeywords. includes_str n k) \<and> \<not> (\<exists>k\<in>set debtKeywords. includes_str n k)
        \<longrightarrow> determineType n = (Sale, Completed))"
  by (simp add: determineType_def list_ex_iff)

lemma exampleImport_header:
  "locateHeader sampleHost exampleImport =
     \<lparr>headerRowIndex = 0, nameColIndex = 1, priceColIndex = 2, dateColIndex = 0\<rparr>"
proof -
  have "findHeader sampleHost exampleImport 0 =
     \<lparr>headerRowIndex = 0, nameColIndex = 1, priceColIndex = 2, dateColIndex = 0\<rparr>"
    by (subst findHeader.simps)
      (simp add: exampleImport_def eval_header mapColumn_def initVars_def)
  then show ?thesis by (simp add: locateHeader_def applyFallback_def)
qed

lemma exampleImport_batch:
  "map (\<lambda>tx. (t_client tx, t_type tx, t_status tx, t_amount tx, t_date tx))
     (processFile sampleHost [] exampleImport) =
   [([1601, 1575, 1578, 1608, 1585, 1577, 32, 1603, 1607, 1585, 1576, 1575, 1569],
       Expense, Completed, Num 5000, ascii ''2024-01-01''),
    (ascii ''Acme'', Sale, Completed, Num 1200, ascii ''2024-01-02''),
    (ascii ''Rent debt'', Expense, Completed, Num 300, ascii ''2024-01-03''),
    (ascii ''credit Ali'', Debt, Pending, Num (123456 / 100), ascii ''2026-11-02'')]"
  unfolding processFile_def exampleImport_header Let_def
  by (simp add: exampleImport_def startDataRow_def eval_row sample_simps lowerAscii_def ascii_def)

lemma exampleImport_nth:
  assumes "i < 4"
  shows "processFile sampleHost [] exampleImport ! i \<in> set (processFile sampleHost [] exampleImport)"
    "(t_client (processFile sampleHost [] exampleImport ! i), t_type (processFile sampleHost [] exampleImport ! i),
      t_status (processFile sampleHost [] exampleImport ! i), t_amount (processFile sampleHost [] exampleImport ! i),
      t_date (processFile sampleHost [] exampleImport ! i)) =
     [([1601, 1575, 1578, 1608, 1585, 1577, 32, 1603, 1607, 1585, 1576, 1575, 1569],
       Expense, Completed, Num 5000, ascii ''2024-01-01''),
    (ascii ''Acme'', Sale, Completed, Num 1200, ascii ''2024-01-02''),
    (ascii ''Rent debt'', Expense, Completed, Num 300, ascii ''2024-01-03''),
    (ascii ''credit Ali'', Debt, Pending, Num (123456 / 100), ascii ''2026-11-02'')] ! i"
proof -
  let ?b = "processFile sampleHost [] exampleImport"
  let ?f = "\<lambda>tx. (t_client tx, t_type tx, t_status tx, t_amount tx, t_date tx)"
  have "length (map ?f ?b) = 4" by (simp only: exampleImport_batch) simp
  then have len: "length ?b = 4" by simp
  with assms show "?b ! i \<in> set ?b" by simp
  have "map ?f ?b ! i = ?f (?b ! i)" using len assms by simp
  then show "?f (?b ! i) = [([1601, 1575, 1578, 1608, 1585, 1577, 32, 1603, 1607, 1585, 1576, 1575, 1569],
       Expense, Completed, Num 5000, ascii ''2024-01-01''),
    (ascii ''Acme'', Sale, Completed, Num 1200, ascii ''2024-01-02''),
    (ascii ''Rent debt'', Expense, Completed, Num 300, ascii ''2024-01-03''),
    (ascii ''credit Ali'', Debt, Pending, Num (123456 / 100), ascii ''2026-11-02'')] ! i"
    by (simp only: exampleImport_batch)
qed

lemmas eval_kw = expenseKeywords_def debtKeywords_def sample_simps lowerAscii_def ascii_def

text \<open>
  Claim C4. The client of an imported record is the name extracted from its row. For
  every record of the batch: if the lower-cased name contains an expense keyword the
  record is an expense with status completed, whether or not a debt keyword occurs too;
  if it contains no expense keyword but a debt keyword, it is a debt with status
  pending; if it contains neither, it is a sale with status completed.
\<close>

theorem classification_precedence:
  "(\<forall>v newId row tx. classifyRow h inventory v newId row = Some tx \<longrightarrow>
      t_client tx = getName h row (nameColIndex v))
   \<and> (\<forall>tx\<in>set (processFile h inventory rows).
        ((\<exists>k\<in>set expenseKeywords. includes_str (toLowerCase h (t_client tx)) k)
           \<longrightarrow> t_type tx = Expense \<and> t_status tx = Completed)
        \<and> (\<not> (\<exists>k\<in>set expenseKeywords. includes_str (toLowerCase h (t_client tx)) k)
             \<and> (\<exists>k\<in>set debtKeywords. includes_str (toLowerCase h (t_client tx)) k)
           \<longrightarrow> t_type tx = Debt \<and> t_status tx = Pending)
        \<and> (\<not> (\<exists>k\<in>set expenseKeywords. includes_str (toLowerCase h (t_client tx)) k)
             \<and> \<not> (\<exists>k\<in>set debtKeywords. includes_str (toLowerCase h (t_client tx)) k)
           \<longrightarrow> t_type tx = Sale \<and> t_status tx = Completed))"
proof (intro conjI allI impI ballI)
  fix v newId row tx
  assume "classifyRow h inventory v newId row = Some tx"
  then show "t_client tx = getName h row (nameColIndex v)" by (rule classifyRow_Some)
next
  fix tx assume "tx \<in> set (processFile h inventory rows)"
  from processFile_mem [OF this] obtain row newId where
    c: "classifyRow h inventory (locateHeader h rows) newId row = Some tx" by auto
  let ?n = "toLowerCase h (t_client tx)"
  have d: "(t_type tx, t_status tx) = determineType ?n"
    using classifyRow_Some(3,5) [OF c] by simp
  {
    assume "\<exists>k\<in>set expenseKeywords. includes_str ?n k"
    then have "determineType ?n = (Expense, Completed)" using determineType_cases [of ?n] by blast
    with d show "t_type tx = Expense" "t_status tx = Completed" by simp_all
  }
  {
    assume "\<not> (\<exists>k\<in>set expenseKeywords. includes_str ?n k) \<and> (\<exists>k\<in>set debtKeywords. includes_str ?n k)"
    then have "determineType ?n = (Debt, Pending)" using determineType_cases [of ?n] by blast
    with d show "t_type tx = Debt" "t_status tx = Pending" by simp_all
  }
  {
    assume "\<not> (\<exists>k\<in>set expenseKeywords. includes_str ?n k) \<and> \<not> (\<exists>k\<in>set debtKeywords. includes_str ?n k)"
    then have "determineType ?n = (Sale, Completed)" using determineType_cases [of ?n] by blast
    with d show "t_type tx = Sale" "t_status tx = Completed" by simp_all
  }
qed

text \<open>
  The theorem on the example grid: the name \<^verbatim>\<open>Rent debt\<close> holds a keyword of each
  table and gives an expense; \<^verbatim>\<open>credit Ali\<close> holds a debt keyword only.
\<close>

theorem classification_precedence_witness:
  "processFile sampleHost [] exampleImport ! 2 \<in> set (processFile sampleHost [] exampleImport)
   \<and> t_client (processFile sampleHost [] exampleImport ! 2) = ascii ''Rent debt''
   \<and> (\<exists>k\<in>set expenseKeywords.
         includes_str (toLowerCase sampleHost (t_client (processFile sampleHost [] exampleImport ! 2))) k)
   \<and> (\<exists>k\<in>set debtKeywords.
         includes_str (toLowerCase sampleHost (t_client (processFile sampleHost [] exampleImport ! 2))) k)
   \<and> t_type (processFile sampleHost [] exampleImport ! 2) = Expense
   \<and> t_status (processFile sampleHost [] exampleImport ! 2) = Completed
   \<and> processFile sampleHost [] exampleImport ! 3 \<in> set (processFile sampleHost [] exampleImport)
   \<and> t_client (processFile sampleHost [] exampleImport ! 3) = ascii ''credit Ali''
   \<and> \<not> (\<exists>k\<in>set expenseKeywords.
         includes_str (toLowerCase sampleHost (t_client (processFile sampleHost [] exampleImport ! 3))) k)
   \<and> (\<exists>k\<in>set debtKeywords.
         includes_str (toLowerCase sampleHost (t_client (processFile sampleHost [] exampleImport ! 3))) k)
   \<and> t_type (processFile sampleHost [] exampleImport ! 3) = Debt
   \<and> t_status (processFile sampleHost [] exampleImport ! 3) = Pending"
proof -
  let ?b = "processFile sampleHost [] exampleImport"
  have m2: "?b ! 2 \<in> set ?b" and m3: "?b ! 3 \<in> set ?b"
    by (rule exampleImport_nth, simp)+
  have c2: "t_client (?b ! 2) = ascii ''Rent debt''"
    using exampleImport_nth(2) [of 2] by simp
  have c3: "t_client (?b ! 3) = ascii ''credit Ali''"
    using exampleImport_nth(2) [of 3] by simp
  have e2: "\<exists>k\<in>set expenseKeywords. includes_str (toLowerCase sampleHost (t_client (?b ! 2))) k"
    by (simp add: c2 eval_kw)
  have d2: "\<exists>k\<in>set debtKeywords. includes_str (toLowerCase sampleHost (t_client (?b ! 2))) k"
    by (simp add: c2 eval_kw)
  have e3: "\<not> (\<exists>k\<in>set expenseKeywords. includes_str (toLowerCase sampleHost (t_client (?b ! 3))) k)"
    by (simp add: c3 eval_kw)
  have d3: "\<exists>k\<in>set debtKeywords. includes_str (toLowerCase sampleHost (t_client (?b ! 3))) k"
    by (simp add: c3 eval_kw)
  note inst = classification_precedence [where h = sampleHost and inventory = "[]" and rows = exampleImport]
  have r2: "t_type (?b ! 2) = Expense \<and> t_status (?b ! 2) = Completed"
    using inst m2 e2 by blast
  have r3: "t_type (?b ! 3) = Debt \<and> t_status (?b ! 3) = Pending"
    using inst m3 e3 d3 by blast
  show ?thesis using m2 m3 c2 c3 e2 d2 e3 d3 r2 r3 by blast
qed

section \<open>Import: amounts\<close>

lemma truthy_abs_positive: "truthyNum n \<Longrightarrow> jgt (jabs n) (Num 0)"
  by (cases n) simp_all

lemma length_processRows:
  "length (processRows h inventory v rows acc) = length acc + length (filter (emits v) rows)"
proof (induction rows arbitrary: acc)
  case Nil
  then show ?case by simp
next
  case (Cons row rows)
  show ?case
  proof (cases "emits v row")
    case True
    then have "classifyRow h inventory v (generateId h (length acc)) row \<noteq> None"
      by (simp add: classifyRow_None_iff emits_def)
    then obtain t where "classifyRow h inventory v (generateId h (length acc)) row = Some t" by auto
    then show ?thesis using True Cons.IH [of "acc @ [t]"] by simp
  next
    case False
    then have "classifyRow h inventory v (generateId h (length acc)) row = None"
      by (simp add: classifyRow_None_iff emits_def)
    then show ?thesis using False Cons.IH [of acc] by simp
  qed
qed

lemma length_filter_update:
  "k < length xs \<Longrightarrow>
   length (filter P (xs[k := a])) =
     length (filter P (take k xs)) + (if P a then 1 else 0) + length (filter P (drop (Suc k) xs))"
  by (simp add: upd_conv_take_nth_drop)

lemma getPrice_update:
  "0 \<le> p \<Longrightarrow> nat p < length row \<Longrightarrow> getPrice (row[nat p := c]) p = priceOfCell c"
  by (simp add: getPrice_def cellAt_def nat_less_iff)

lemma length_processFile_variant:
  assumes i: "i < length rows" and s: "nat (startDataRow (locateHeader h rows)) \<le> i"
    and same: "locateHeader h (rows[i := r]) = locateHeader h rows"
  shows "length (processFile h inventory (rows[i := r])) =
     length (filter (emits (locateHeader h rows)) (take (i - nat (startDataRow (locateHeader h rows)))
        (drop (nat (startDataRow (locateHeader h rows))) rows)))
     + (if emits (locateHeader h rows) r then 1 else 0)
     + length (filter (emits (locateHeader h rows)) (drop (Suc (i - nat (startDataRow (locateHeader h rows))))
        (drop (nat (startDataRow (locateHeader h rows))) rows)))"
proof -
  let ?v = "locateHeader h rows"
  let ?s = "nat (startDataRow ?v)"
  have "drop ?s (rows[i := r]) = (drop ?s rows)[i - ?s := r]"
    using s by (simp add: drop_update_swap)
  moreover have "i - ?s < length (drop ?s rows)" using i s by simp
  ultimately show ?thesis
    by (simp add: processFile_def Let_def same length_processRows length_filter_update del: drop_drop)
qed

lemma fold_mapColumn_price_ge:
  "-1 \<le> priceColIndex v \<Longrightarrow> -1 \<le> priceColIndex (fold (mapColumn h) ps v)"
  by (induction ps arbitrary: v) (simp_all add: mapColumn_price)

lemma findHeader_price_ge: "-1 \<le> priceColIndex (findHeader h rows i)"
proof (induction h rows i rule: findHeader.induct)
  case (1 h rows i)
  show ?case
  proof (cases "i < min (length rows) 10")
    case True
    show ?thesis
    proof (cases "isHeaderRow h (rows ! i)")
      case True
      with \<open>i < min (length rows) 10\<close> show ?thesis
        by (subst findHeader.simps) (simp add: fold_mapColumn_price_ge initVars_def)
    next
      case False
      with \<open>i < min (length rows) 10\<close> "1.IH" show ?thesis
        by (subst findHeader.simps) simp
    qed
  next
    case False
    then show ?thesis by (subst findHeader.simps) (auto simp: initVars_def)
  qed
qed

lemma priceColIndex_nonneg: "0 \<le> priceColIndex (locateHeader h rows)"
  using findHeader_price_ge [of h rows 0]
  by (simp add: locateHeader_def applyFallback_fields)

text \<open>A change below the first header row does not move the header.\<close>

lemma locateHeader_update_below:
  assumes "k < i" "k < min (length rows) 10" "isHeaderRow h (rows ! k)"
  shows "locateHeader h (rows[i := r]) = locateHeader h rows"
proof -
  from assms(3) have "\<exists>n. isHeaderRow h (rows ! n)" by blast
  then obtain k0 where k0: "isHeaderRow h (rows ! k0)" "\<forall>m<k0. \<not> isHeaderRow h (rows ! m)"
    by (auto simp: exists_least_iff [of "\<lambda>n. isHeaderRow h (rows ! n)"])
  have le: "k0 \<le> k" using k0(2) assms(3) by (meson not_le)
  then have lt: "k0 < min (length rows) 10" "k0 < i" using assms by simp_all
  have same: "\<And>j. j \<le> k0 \<Longrightarrow> rows[i := r] ! j = rows ! j" using lt by simp
  have a: "locateHeader h rows =
    applyFallback (fold (mapColumn h) (enumerate 0 (rows ! k0)) (initVars\<lparr>headerRowIndex := int k0\<rparr>))"
    using lt k0 by (intro locateHeader_found) simp_all
  have b: "locateHeader h (rows[i := r]) =
    applyFallback (fold (mapColumn h) (enumerate 0 (rows[i := r] ! k0)) (initVars\<lparr>headerRowIndex := int k0\<rparr>))"
    using lt k0 same by (intro locateHeader_found) simp_all
  show ?thesis using a b same [of k0] by simp
qed

text \<open>
  Claim C3. Every record of an imported batch has an amount greater than 0. A row gives
  no record exactly when it is empty or its extracted amount is falsy (0 or
  \<^verbatim>\<open>NaN\<close>, the results for a zero, unparseable or missing price), and a record
  stores the absolute value of the extracted amount. For a data row \<open>i\<close> that has a
  price cell, the batch of the grid with a price cell of falsy amount is one record
  shorter than the batch of the grid with a price cell of truthy amount, the two grids
  having the same header: a header row stands above row \<open>i\<close>, or the header search
  gives the same result on both.
\<close>

theorem import_amount_positive:
  "(\<forall>tx\<in>set (processFile h inventory rows). jgt (t_amount tx) (Num 0))
   \<and> (\<forall>v newId row. classifyRow h inventory v newId row = None \<longleftrightarrow>
         (row = [] \<or> \<not> truthyNum (getPrice row (priceColIndex v))))
   \<and> (\<forall>v newId row tx. classifyRow h inventory v newId row = Some tx \<longrightarrow>
         t_amount tx = jabs (getPrice row (priceColIndex v)))
   \<and> (\<forall>i c0 c1.
         i < length rows
         \<and> nat (startDataRow (locateHeader h rows)) \<le> i
         \<and> nat (priceColIndex (locateHeader h rows)) < length (rows ! i)
         \<and> \<not> truthyNum (priceOfCell c0) \<and> truthyNum (priceOfCell c1)
         \<and> ((\<exists>k<i. k < min (length rows) 10 \<and> isHeaderRow h (rows ! k))
            \<or> locateHeader h (rows[i := (rows ! i)[nat (priceColIndex (locateHeader h rows)) := c0]])
                 = locateHeader h rows
               \<and> locateHeader h (rows[i := (rows ! i)[nat (priceColIndex (locateHeader h rows)) := c1]])
                 = locateHeader h rows)
       \<longrightarrow> length (processFile h inventory
                (rows[i := (rows ! i)[nat (priceColIndex (locateHeader h rows)) := c1]]))
           = Suc (length (processFile h inventory
                (rows[i := (rows ! i)[nat (priceColIndex (locateHeader h rows)) := c0]]))))"
proof (intro conjI allI impI ballI)
  fix tx assume "tx \<in> set (processFile h inventory rows)"
  from processFile_mem [OF this] obtain row newId where
    c: "classifyRow h inventory (locateHeader h rows) newId row = Some tx" by auto
  show "jgt (t_amount tx) (Num 0)"
    using classifyRow_Some(2,4) [OF c] by (simp add: truthy_abs_positive)
next
  fix v newId row
  show "classifyRow h inventory v newId row = None \<longleftrightarrow>
         (row = [] \<or> \<not> truthyNum (getPrice row (priceColIndex v)))"
    by (rule classifyRow_None_iff)
next
  fix v newId row tx
  assume "classifyRow h inventory v newId row = Some tx"
  then show "t_amount tx = jabs (getPrice row (priceColIndex v))" by (rule classifyRow_Some)
next
  fix i c0 c1
  let ?v = "locateHeader h rows"
  let ?p = "nat (priceColIndex ?v)"
  let ?s = "nat (startDataRow ?v)"
  assume a: "i < length rows
         \<and> ?s \<le> i
         \<and> ?p < length (rows ! i)
         \<and> \<not> truthyNum (priceOfCell c0) \<and> truthyNum (priceOfCell c1)
         \<and> ((\<exists>k<i. k < min (length rows) 10 \<and> isHeaderRow h (rows ! k))
            \<or> locateHeader h (rows[i := (rows ! i)[?p := c0]]) = ?v
               \<and> locateHeader h (rows[i := (rows ! i)[?p := c1]]) = ?v)"
  have same: "locateHeader h (rows[i := (rows ! i)[?p := c]]) = ?v" if "c = c0 \<or> c = c1" for c
    using a that by (auto simp: locateHeader_update_below)
  have p0: "0 \<le> priceColIndex ?v" by (rule priceColIndex_nonneg)
  have e0: "\<not> emits ?v ((rows ! i)[?p := c0])"
    using a p0 by (simp add: emits_def getPrice_update)
  have ne: "(rows ! i)[?p := c1] \<noteq> []" using a by auto
  have e1: "emits ?v ((rows ! i)[?p := c1])"
    using a p0 ne by (simp add: emits_def getPrice_update)
  have l0: "length (processFile h inventory (rows[i := (rows ! i)[?p := c0]])) =
     length (filter (emits ?v) (take (i - ?s) (drop ?s rows)))
     + 0
     + length (filter (emits ?v) (drop (Suc (i - ?s)) (drop ?s rows)))"
    using length_processFile_variant [of i rows h "(rows ! i)[?p := c0]" inventory] a e0 same [of c0]
    by simp
  have l1: "length (processFile h inventory (rows[i := (rows ! i)[?p := c1]])) =
     length (filter (emits ?v) (take (i - ?s) (drop ?s rows)))
     + 1
     + length (filter (emits ?v) (drop (Suc (i - ?s)) (drop ?s rows)))"
    using length_processFile_variant [of i rows h "(rows ! i)[?p := c1]" inventory] a e1 same [of c1]
    by simp
  show "length (processFile h inventory (rows[i := (rows ! i)[?p := c1]]))
           = Suc (length (processFile h inventory (rows[i := (rows ! i)[?p := c0]])))"
    using l0 l1 by simp
qed

text \<open>
  The theorem on the example grid, the price of row 2 being \<^verbatim>\<open>0.00\<close> or
  \<^verbatim>\<open>75\<close>; the record of the row with price \<open>-300\<close> stores 300.
\<close>

theorem import_amount_positive_witness:
  "length (processFile sampleHost [] (exampleImport[2 := (exampleImport ! 2)[2 := CStr (ascii ''75'')]]))
     = Suc (length (processFile sampleHost [] (exampleImport[2 := (exampleImport ! 2)[2 := CStr (ascii ''0.00'')]])))
   \<and> \<not> truthyNum (priceOfCell (CStr (ascii ''0.00'')))
   \<and> \<not> truthyNum (priceOfCell (CStr (ascii ''n/a'')))
   \<and> \<not> truthyNum (priceOfCell CEmpty)
   \<and> truthyNum (priceOfCell (CStr (ascii ''75'')))
   \<and> processFile sampleHost [] exampleImport ! 2 \<in> set (processFile sampleHost [] exampleImport)
   \<and> t_amount (processFile sampleHost [] exampleImport ! 2) = Num 300
   \<and> jgt (t_amount (processFile sampleHost [] exampleImport ! 2)) (Num 0)"
proof -
  let ?v = "locateHeader sampleHost exampleImport"
  let ?c0 = "CStr (ascii ''0.00'')" and ?c1 = "CStr (ascii ''75'')"
  note inst = import_amount_positive [where h = sampleHost and inventory = "[]" and rows = exampleImport]
  have hdr: "?v = \<lparr>headerRowIndex = 0, nameColIndex = 1, priceColIndex = 2, dateColIndex = 0\<rparr>"
    by (rule exampleImport_header)
  have p: "nat (priceColIndex ?v) = 2" and s: "nat (startDataRow ?v) = 1"
    by (simp_all add: hdr startDataRow_def)
  have f0: "\<not> truthyNum (priceOfCell ?c0)"
    and f1: "\<not> truthyNum (priceOfCell (CStr (ascii ''n/a'')))"
    and f2: "\<not> truthyNum (priceOfCell CEmpty)"
    and t1: "truthyNum (priceOfCell ?c1)"
    by (simp_all add: parseFloat_def stripNonNumeric_def digitsVal_def isDigit_def ascii_def)
  have hr: "\<exists>k<2. k < min (length exampleImport) 10 \<and> isHeaderRow sampleHost (exampleImport ! k)"
  proof (intro exI conjI)
    show "(0::nat) < 2" by simp
    show "0 < min (length exampleImport) 10" by (simp add: exampleImport_def)
    show "isHeaderRow sampleHost (exampleImport ! 0)" by (simp add: exampleImport_def eval_header)
  qed
  have len: "2 < length exampleImport" "2 < length (exampleImport ! 2)"
    by (simp_all add: exampleImport_def)
  have pre: "2 < length exampleImport
         \<and> nat (startDataRow ?v) \<le> 2
         \<and> nat (priceColIndex ?v) < length (exampleImport ! 2)
         \<and> \<not> truthyNum (priceOfCell ?c0) \<and> truthyNum (priceOfCell ?c1)
         \<and> ((\<exists>k<2. k < min (length exampleImport) 10 \<and> isHeaderRow sampleHost (exampleImport ! k))
            \<or> locateHeader sampleHost (exampleImport[2 := (exampleImport ! 2)[nat (priceColIndex ?v) := ?c0]]) = ?v
              \<and> locateHeader sampleHost (exampleImport[2 := (exampleImport ! 2)[nat (priceColIndex ?v) := ?c1]]) = ?v)"
    using len f0 t1 hr by (simp only: p s) simp
  from inst have "\<forall>i c0 c1.
         i < length exampleImport
         \<and> nat (startDataRow ?v) \<le> i
         \<and> nat (priceColIndex ?v) < length (exampleImport ! i)
         \<and> \<not> truthyNum (priceOfCell c0) \<and> truthyNum (priceOfCell c1)
         \<and> ((\<exists>k<i. k < min (length exampleImport) 10 \<and> isHeaderRow sampleHost (exampleImport ! k))
            \<or> locateHeader sampleHost (exampleImport[i := (exampleImport ! i)[nat (priceColIndex ?v) := c0]]) = ?v
              \<and> locateHeader sampleHost (exampleImport[i := (exampleImport ! i)[nat (priceColIndex ?v) := c1]]) = ?v)
       \<longrightarrow> length (processFile sampleHost []
                (exampleImport[i := (exampleImport ! i)[nat (priceColIndex ?v) := c1]]))
           = Suc (length (processFile sampleHost []
                (exampleImport[i := (exampleImport ! i)[nat (priceColIndex ?v) := c0]])))"
    by (elim conjE)
  from this [rule_format, OF pre]
  have d: "length (processFile sampleHost [] (exampleImport[2 := (exampleImport ! 2)[2 := ?c1]]))
     = Suc (length (processFile sampleHost [] (exampleImport[2 := (exampleImport ! 2)[2 := ?c0]])))"
    by (simp only: p)
  have m: "processFile sampleHost [] exampleImport ! 2 \<in> set (processFile sampleHost [] exampleImport)"
    by (rule exampleImport_nth) simp
  have a: "t_amount (processFile sampleHost [] exampleImport ! 2) = Num 300"
    using exampleImport_nth(2) [of 2] by simp
  from inst m have g: "jgt (t_amount (processFile sampleHost [] exampleImport ! 2)) (Num 0)"
    by blast
  show ?thesis using d f0 f1 f2 t1 m a g by blast
qed

section \<open>Aggregation: dashboard totals\<close>

lemma fold_dashStep_sales:
  "a_totalSalesUSD (fold (dashStep h) txs a) =
     foldl jadd (a_totalSalesUSD a) (map normalizedVal (filter isCompletedSale txs))"
  by (induction txs arbitrary: a) (auto simp: dashStep_def Let_def isCompletedSale_def)

lemma fold_dashStep_debt:
  "a_totalDebt (fold (dashStep h) txs a) =
     foldl jadd (a_totalDebt a) (map normalizedVal (filter isOpenDebt txs))"
  by (induction txs arbitrary: a) (auto simp: dashStep_def Let_def isOpenDebt_def)

lemmas eval_tx = exampleTx_def isCompletedSale_def isOpenDebt_def isCollectedDebt_def isPendingDebt_def
  sumNormalized_def normalizedVal_def EXCHANGE_RATE_def

text \<open>
  Claim C9. For every working set, \<^verbatim>\<open>totalSalesIQD\<close> is \<^verbatim>\<open>totalSalesUSD\<close> times
  1520, \<^verbatim>\<open>totalSalesUSD\<close> being the sum of the normalized amounts of the completed
  sale and cash transactions; \<^verbatim>\<open>totalDebt\<close> is 1520 times the sum of the normalized
  amounts of the debt transactions whose status is not completed; the normalized amount
  is the amount, divided by 1520 when the currency is IQD.
\<close>

theorem dashboard_derived_totals:
  "ds_totalSalesIQD (dashboardStats h txs) = jmul (ds_totalSalesUSD (dashboardStats h txs)) (Num 1520)
   \<and> ds_totalSalesUSD (dashboardStats h txs) = sumNormalized (filter isCompletedSale txs)
   \<and> ds_totalDebt (dashboardStats h txs) = jmul (sumNormalized (filter isOpenDebt txs)) (Num 1520)
   \<and> normalizedVal t = (if t_currency t = IQD then jdiv (t_amount t) (Num 1520) else t_amount t)"
  by (simp add: dashboardStats_def Let_def fold_dashStep_sales fold_dashStep_debt sumNormalized_def
      initDashAcc_def EXCHANGE_RATE_def normalizedVal_def)

text \<open>The theorem on the example ledger: sales of 101 USD, open debts of 4 USD.\<close>

theorem dashboard_derived_totals_witness:
  "ds_totalSalesUSD (dashboardStats sampleHost exampleLedger) = Num 101
   \<and> ds_totalSalesIQD (dashboardStats sampleHost exampleLedger) = Num 153520
   \<and> ds_totalDebt (dashboardStats sampleHost exampleLedger) = Num 6080"
proof -
  note inst = dashboard_derived_totals [where h = sampleHost and txs = exampleLedger]
  have s: "sumNormalized (filter isCompletedSale exampleLedger) = Num 101"
    by (simp add: exampleLedger_def eval_tx)
  have d: "sumNormalized (filter isOpenDebt exampleLedger) = Num 4"
    by (simp add: exampleLedger_def eval_tx)
  from inst s d show ?thesis by simp
qed

section \<open>Aggregation: the collection rate\<close>

lemma fold_reportStep_pending:
  "r_pendingDebt (fold reportStep txs a) =
     foldl jadd (r_pendingDebt a) (map normalizedVal (filter isPendingDebt txs))"
  by (induction txs arbitrary: a) (auto simp: reportStep_def Let_def isPendingDebt_def)











section \<open>Debts: settlement\<close>

lemma find_same_key:
  "distinct (map f xs) \<Longrightarrow> t \<in> set xs \<Longrightarrow>
   find (\<lambda>u. f u = f t) (filter P xs) = (if P t then Some t else None)"
proof (induction xs)
  case Nil
  then show ?case by simp
next
  case (Cons x xs)
  show ?case
  proof (cases "x = t")
    case True
    have "find (\<lambda>u. f u = f t) (filter P xs) = None"
      using Cons.prems(1) True by (auto simp: find_None_iff image_iff)
    then show ?thesis using True by simp
  next
    case False
    with Cons.prems have "t \<in> set xs" "f x \<noteq> f t" by auto
    with Cons show ?thesis by simp
  qed
qed

lemma find_map_key:
  "(\<And>x. f (g x) = f x) \<Longrightarrow>
   find (\<lambda>u. f u = k) (map g xs) = map_option g (find (\<lambda>u. f u = k) xs)"
  by (induction xs) simp_all

lemma settle_pointwise:
  assumes "distinct (map t_id txs)"
  shows "handleSettleClientDebt h True clientName txs =
     map (\<lambda>t. if isClientPendingDebt clientName t
               then t\<lparr>t_status := Completed, t_date := getToday h\<rparr> else t) txs"
proof -
  let ?P = "\<lambda>t. t_client t = clientName \<and> t_type t = Debt \<and> t_status t = Pending"
  let ?g = "\<lambda>t. t\<lparr>t_status := Completed, t_date := getToday h\<rparr>"
  have "(case find (\<lambda>u. t_id u = t_id t) (map ?g (filter ?P txs)) of Some updated \<Rightarrow> updated | None \<Rightarrow> t)
      = (if isClientPendingDebt clientName t then ?g t else t)" if "t \<in> set txs" for t
  proof -
    have "find (\<lambda>u. t_id u = t_id t) (map ?g (filter ?P txs)) =
        map_option ?g (find (\<lambda>u. t_id u = t_id t) (filter ?P txs))"
      by (rule find_map_key) simp
    also have "find (\<lambda>u. t_id u = t_id t) (filter ?P txs) = (if ?P t then Some t else None)"
      using assms that by (rule find_same_key)
    finally show ?thesis by (simp add: isClientPendingDebt_def)
  qed
  then show ?thesis by (simp add: handleSettleClientDebt_def Let_def cong: map_cong)
qed

lemma settled_not_pending:
  "\<not> isClientPendingDebt c (t\<lparr>t_status := Completed, t_date := d\<rparr>)"
  by (simp add: isClientPendingDebt_def)

lemma settled_fields:
  "t_status (t\<lparr>t_status := Completed, t_date := d\<rparr>) = Completed"
  "t_date (t\<lparr>t_status := Completed, t_date := d\<rparr>) = d"
  "t_client (t\<lparr>t_status := Completed, t_date := d\<rparr>) = t_client t"
  "t_type (t\<lparr>t_status := Completed, t_date := d\<rparr>) = t_type t"
  "t_id (t\<lparr>t_status := Completed, t_date := d\<rparr>) = t_id t"
  by simp_all

lemma find_SomeD: "find Q xs = Some u \<Longrightarrow> u \<in> set xs \<and> Q u"
  by (induction xs) (auto split: if_splits)

lemma settle_alt:
  "handleSettleClientDebt h True clientName txs =
     map (\<lambda>t. case find (\<lambda>u. t_id u = t_id t)
                     (map (\<lambda>t. t\<lparr>t_status := Completed, t_date := getToday h\<rparr>)
                        (filter (isClientPendingDebt clientName) txs)) of
                 Some updated \<Rightarrow> updated
               | None \<Rightarrow> t) txs"
proof -
  have "isClientPendingDebt clientName =
      (\<lambda>t. t_client t = clientName \<and> t_type t = Debt \<and> t_status t = Pending)"
    by (rule ext) (simp add: isClientPendingDebt_def)
  then show ?thesis by (simp add: handleSettleClientDebt_def Let_def)
qed

text \<open>What the lookup by identifier puts in the place of one record, for any list.\<close>

lemma settle_one:
  assumes t: "t \<in> set txs"
  shows "((case find (\<lambda>u. t_id u = t_id t)
                 (map (\<lambda>t. t\<lparr>t_status := Completed, t_date := d\<rparr>)
                    (filter (isClientPendingDebt c) txs)) of
             Some updated \<Rightarrow> updated | None \<Rightarrow> t) = t \<and> \<not> isClientPendingDebt c t)
       \<or> (\<exists>t'\<in>set txs. isClientPendingDebt c t' \<and> t_id t' = t_id t
            \<and> (case find (\<lambda>u. t_id u = t_id t)
                 (map (\<lambda>t. t\<lparr>t_status := Completed, t_date := d\<rparr>)
                    (filter (isClientPendingDebt c) txs)) of
                  Some updated \<Rightarrow> updated | None \<Rightarrow> t) = t'\<lparr>t_status := Completed, t_date := d\<rparr>)"
proof -
  let ?g = "\<lambda>t. t\<lparr>t_status := Completed, t_date := d\<rparr>"
  let ?U = "map ?g (filter (isClientPendingDebt c) txs)"
  show ?thesis
  proof (cases "find (\<lambda>u. t_id u = t_id t) ?U")
    case None
    have "\<not> isClientPendingDebt c t"
    proof
      assume "isClientPendingDebt c t"
      with t have "?g t \<in> set ?U" by (simp only: set_map set_filter) blast
      moreover have "t_id (?g t) = t_id t" by (rule settled_fields)
      ultimately have "\<exists>u. u \<in> set ?U \<and> t_id u = t_id t" by blast
      with None show False by (simp only: find_None_iff) blast
    qed
    with None show ?thesis by (simp only: option.case) blast
  next
    case (Some u)
    from find_SomeD [OF Some] have u: "u \<in> set ?U" "t_id u = t_id t" by blast+
    from u(1) obtain t' where t': "t' \<in> set txs" "isClientPendingDebt c t'" "u = ?g t'"
      by (auto simp only: set_map set_filter image_iff mem_Collect_eq)
    have "t_id t' = t_id t" using u(2) unfolding t'(3) settled_fields .
    with t' Some show ?thesis by (simp only: option.case) blast
  qed
qed

text \<open>
  Claim C7, as the code has it. Settlement keeps the number of transactions and does
  nothing when the dialogue is declined. When confirmed, for every list: no pending
  debt of the client remains; the record in the place of a pending debt of the client is
  a debt of that client with status completed and today's date; and the record in any
  place is the record that stood there or the settled copy of a pending debt of the
  client that has the same identifier. For transactions with pairwise distinct
  identifiers: every pending debt of the client gets status completed and today's date,
  all its other fields unchanged, and every other transaction (another client, another
  type, or not pending) is unchanged.
\<close>

theorem settle_client_debt_frame:
  "length (handleSettleClientDebt h confirmed clientName txs) = length txs
   \<and> handleSettleClientDebt h False clientName txs = txs
   \<and> (\<forall>r\<in>set (handleSettleClientDebt h True clientName txs). \<not> isClientPendingDebt clientName r)
   \<and> (\<forall>i<length txs. isClientPendingDebt clientName (txs ! i) \<longrightarrow>
         t_status (handleSettleClientDebt h True clientName txs ! i) = Completed
         \<and> t_date (handleSettleClientDebt h True clientName txs ! i) = getToday h
         \<and> t_client (handleSettleClientDebt h True clientName txs ! i) = clientName
         \<and> t_type (handleSettleClientDebt h True clientName txs ! i) = Debt)
   \<and> (\<forall>i<length txs.
         handleSettleClientDebt h True clientName txs ! i = txs ! i
         \<or> (\<exists>t\<in>set txs. isClientPendingDebt clientName t \<and> t_id t = t_id (txs ! i)
              \<and> handleSettleClientDebt h True clientName txs ! i
                  = t\<lparr>t_status := Completed, t_date := getToday h\<rparr>))
   \<and> (distinct (map t_id txs) \<longrightarrow>
        handleSettleClientDebt h True clientName txs =
          map (\<lambda>t. if isClientPendingDebt clientName t
                    then t\<lparr>t_status := Completed, t_date := getToday h\<rparr> else t) txs
        \<and> (\<forall>i<length txs.
              (isClientPendingDebt clientName (txs ! i) \<longrightarrow>
                 handleSettleClientDebt h True clientName txs ! i
                   = (txs ! i)\<lparr>t_status := Completed, t_date := getToday h\<rparr>)
              \<and> (\<not> isClientPendingDebt clientName (txs ! i) \<longrightarrow>
                 handleSettleClientDebt h True clientName txs ! i = txs ! i)))"
proof -
  let ?R = "handleSettleClientDebt h True clientName txs"
  let ?g = "\<lambda>t. t\<lparr>t_status := Completed, t_date := getToday h\<rparr>"
  let ?f = "\<lambda>t. case find (\<lambda>u. t_id u = t_id t)
                     (map ?g (filter (isClientPendingDebt clientName) txs)) of
                 Some updated \<Rightarrow> updated
               | None \<Rightarrow> t"
  have R: "?R = map ?f txs" by (rule settle_alt)
  have nth: "?R ! i = ?f (txs ! i)" if "i < length txs" for i
    unfolding R using that by (rule nth_map)
  have one: "(?f (txs ! i) = txs ! i \<and> \<not> isClientPendingDebt clientName (txs ! i))
       \<or> (\<exists>t'\<in>set txs. isClientPendingDebt clientName t' \<and> t_id t' = t_id (txs ! i)
            \<and> ?f (txs ! i) = ?g t')" if "i < length txs" for i
    using that by (intro settle_one nth_mem)
  have c1: "length (handleSettleClientDebt h confirmed clientName txs) = length txs"
    by (simp add: handleSettleClientDebt_def Let_def)
  have c2: "handleSettleClientDebt h False clientName txs = txs"
    by (simp add: handleSettleClientDebt_def)
  have lenR: "length ?R = length txs" by (simp only: R length_map)
  have c3: "\<forall>r\<in>set ?R. \<not> isClientPendingDebt clientName r"
  proof
    fix r assume "r \<in> set ?R"
    then obtain i where i: "i < length txs" "r = ?R ! i"
      using lenR by (auto simp only: in_set_conv_nth)
    from one [OF i(1)] show "\<not> isClientPendingDebt clientName r"
    proof
      assume "?f (txs ! i) = txs ! i \<and> \<not> isClientPendingDebt clientName (txs ! i)"
      then have e: "?f (txs ! i) = txs ! i" and np: "\<not> isClientPendingDebt clientName (txs ! i)"
        by blast+
      have "r = txs ! i" unfolding i(2) nth [OF i(1)] by (rule e)
      with np show ?thesis by blast
    next
      assume "\<exists>t'\<in>set txs. isClientPendingDebt clientName t' \<and> t_id t' = t_id (txs ! i)
            \<and> ?f (txs ! i) = ?g t'"
      then obtain t' where "?f (txs ! i) = ?g t'" by blast
      then show ?thesis unfolding i(2) nth [OF i(1)]
        by (simp only: settled_not_pending not_False_eq_True)
    qed
  qed
  have c4: "\<forall>i<length txs. isClientPendingDebt clientName (txs ! i) \<longrightarrow>
         t_status (?R ! i) = Completed \<and> t_date (?R ! i) = getToday h
         \<and> t_client (?R ! i) = clientName \<and> t_type (?R ! i) = Debt"
  proof (intro allI impI)
    fix i assume i: "i < length txs" and p: "isClientPendingDebt clientName (txs ! i)"
    from one [OF i] p obtain t' where t': "isClientPendingDebt clientName t'" "?f (txs ! i) = ?g t'"
      by blast
    from t'(1) have "t_client t' = clientName" "t_type t' = Debt"
      by (simp_all add: isClientPendingDebt_def)
    then show "t_status (?R ! i) = Completed \<and> t_date (?R ! i) = getToday h
         \<and> t_client (?R ! i) = clientName \<and> t_type (?R ! i) = Debt"
      unfolding nth [OF i] t'(2) settled_fields by (simp only:)
  qed
  have c5: "\<forall>i<length txs. ?R ! i = txs ! i
         \<or> (\<exists>t\<in>set txs. isClientPendingDebt clientName t \<and> t_id t = t_id (txs ! i) \<and> ?R ! i = ?g t)"
  proof (intro allI impI)
    fix i assume i: "i < length txs"
    from one [OF i] show "?R ! i = txs ! i
         \<or> (\<exists>t\<in>set txs. isClientPendingDebt clientName t \<and> t_id t = t_id (txs ! i) \<and> ?R ! i = ?g t)"
      unfolding nth [OF i] by blast
  qed
  have c6: "distinct (map t_id txs) \<longrightarrow>
        ?R = map (\<lambda>t. if isClientPendingDebt clientName t then ?g t else t) txs
        \<and> (\<forall>i<length txs.
              (isClientPendingDebt clientName (txs ! i) \<longrightarrow> ?R ! i = ?g (txs ! i))
              \<and> (\<not> isClientPendingDebt clientName (txs ! i) \<longrightarrow> ?R ! i = txs ! i))"
  proof (intro impI conjI allI)
    assume d: "distinct (map t_id txs)"
    show "?R = map (\<lambda>t. if isClientPendingDebt clientName t then ?g t else t) txs"
      using d by (rule settle_pointwise)
  next
    fix i
    assume d: "distinct (map t_id txs)" and i: "i < length txs"
      and p: "isClientPendingDebt clientName (txs ! i)"
    have "?R ! i = (if isClientPendingDebt clientName (txs ! i) then ?g (txs ! i) else txs ! i)"
      unfolding settle_pointwise [OF d] using i by (rule nth_map)
    with p show "?R ! i = ?g (txs ! i)" by (simp only: if_True)
  next
    fix i
    assume d: "distinct (map t_id txs)" and i: "i < length txs"
      and p: "\<not> isClientPendingDebt clientName (txs ! i)"
    have "?R ! i = (if isClientPendingDebt clientName (txs ! i) then ?g (txs ! i) else txs ! i)"
      unfolding settle_pointwise [OF d] using i by (rule nth_map)
    with p show "?R ! i = txs ! i" by (simp only: if_False)
  qed
  from c1 c2 c3 c4 c5 c6 show ?thesis by (intro conjI)
qed

text \<open>
  The theorem on the example debts, whose identifiers are distinct: the three pending
  debts of Ali are settled; and, in a list with a shared identifier, at the place of
  Ali's pending debt.
\<close>

theorem settle_client_debt_frame_witness:
  "distinct (map t_id exampleDebts)
   \<and> handleSettleClientDebt sampleHost True (ascii ''Ali'') exampleDebts =
     [exampleTx (ascii ''TX-2001'') Debt (ascii ''Ali'') (ascii ''2026-11-02'') 20 USD Completed,
      exampleTx (ascii ''TX-2002'') Debt (ascii ''Sara'') (ascii ''2024-01-02'') 5 USD Pending,
      (exampleTx (ascii ''TX-2003'') Debt (ascii ''Ali'') (ascii ''2026-11-02'') 30 USD Completed)
        \<lparr>t_clientPhone := Some (ascii ''0770'')\<rparr>,
      exampleTx (ascii ''TX-2004'') Debt (ascii ''Ali'') (ascii ''2026-11-02'') 10 USD Completed,
      exampleTx (ascii ''TX-2005'') Debt (ascii ''Ali'') (ascii ''2024-01-03'') 99 USD Completed,
      exampleTx (ascii ''TX-2006'') Sale (ascii ''Ali'') (ascii ''2024-01-03'') 7 USD Completed]
   \<and> isClientPendingDebt (ascii ''Ali'') (exampleSharedId ! 1)
   \<and> t_status (handleSettleClientDebt sampleHost True (ascii ''Ali'') exampleSharedId ! 1) = Completed
   \<and> t_date (handleSettleClientDebt sampleHost True (ascii ''Ali'') exampleSharedId ! 1) = ascii ''2026-11-02''"
proof -
  have d: "distinct (map t_id exampleDebts)"
    by (simp add: exampleDebts_def exampleTx_def ascii_def)
  from settle_client_debt_frame [where h = sampleHost and clientName = "ascii ''Ali''" and txs = exampleDebts] d
  have "handleSettleClientDebt sampleHost True (ascii ''Ali'') exampleDebts =
          map (\<lambda>t. if isClientPendingDebt (ascii ''Ali'') t
                    then t\<lparr>t_status := Completed, t_date := getToday sampleHost\<rparr> else t) exampleDebts"
    by blast
  also have "\<dots> =
     [exampleTx (ascii ''TX-2001'') Debt (ascii ''Ali'') (ascii ''2026-11-02'') 20 USD Completed,
      exampleTx (ascii ''TX-2002'') Debt (ascii ''Sara'') (ascii ''2024-01-02'') 5 USD Pending,
      (exampleTx (ascii ''TX-2003'') Debt (ascii ''Ali'') (ascii ''2026-11-02'') 30 USD Completed)
        \<lparr>t_clientPhone := Some (ascii ''0770'')\<rparr>,
      exampleTx (ascii ''TX-2004'') Debt (ascii ''Ali'') (ascii ''2026-11-02'') 10 USD Completed,
      exampleTx (ascii ''TX-2005'') Debt (ascii ''Ali'') (ascii ''2024-01-03'') 99 USD Completed,
      exampleTx (ascii ''TX-2006'') Sale (ascii ''Ali'') (ascii ''2024-01-03'') 7 USD Completed]"
    by (simp add: exampleDebts_def exampleTx_def isClientPendingDebt_def sample_simps ascii_def)
  finally have frame: "handleSettleClientDebt sampleHost True (ascii ''Ali'') exampleDebts =
     [exampleTx (ascii ''TX-2001'') Debt (ascii ''Ali'') (ascii ''2026-11-02'') 20 USD Completed,
      exampleTx (ascii ''TX-2002'') Debt (ascii ''Sara'') (ascii ''2024-01-02'') 5 USD Pending,
      (exampleTx (ascii ''TX-2003'') Debt (ascii ''Ali'') (ascii ''2026-11-02'') 30 USD Completed)
        \<lparr>t_clientPhone := Some (ascii ''0770'')\<rparr>,
      exampleTx (ascii ''TX-2004'') Debt (ascii ''Ali'') (ascii ''2026-11-02'') 10 USD Completed,
      exampleTx (ascii ''TX-2005'') Debt (ascii ''Ali'') (ascii ''2024-01-03'') 99 USD Completed,
      exampleTx (ascii ''TX-2006'') Sale (ascii ''Ali'') (ascii ''2024-01-03'') 7 USD Completed]" .
  have len: "1 < length exampleSharedId" by (simp add: exampleSharedId_def)
  have p: "isClientPendingDebt (ascii ''Ali'') (exampleSharedId ! 1)"
    by (simp add: exampleSharedId_def exampleTx_def isClientPendingDebt_def)
  from settle_client_debt_frame [where h = sampleHost and clientName = "ascii ''Ali''" and txs = exampleSharedId,
      THEN conjunct2, THEN conjunct2, THEN conjunct2, THEN conjunct1]
  have "\<forall>i<length exampleSharedId. isClientPendingDebt (ascii ''Ali'') (exampleSharedId ! i) \<longrightarrow>
         t_status (handleSettleClientDebt sampleHost True (ascii ''Ali'') exampleSharedId ! i) = Completed
         \<and> t_date (handleSettleClientDebt sampleHost True (ascii ''Ali'') exampleSharedId ! i) = getToday sampleHost
         \<and> t_client (handleSettleClientDebt sampleHost True (ascii ''Ali'') exampleSharedId ! i) = ascii ''Ali''
         \<and> t_type (handleSettleClientDebt sampleHost True (ascii ''Ali'') exampleSharedId ! i) = Debt" .
  with len p have st: "t_status (handleSettleClientDebt sampleHost True (ascii ''Ali'') exampleSharedId ! 1) = Completed"
    and dt: "t_date (handleSettleClientDebt sampleHost True (ascii ''Ali'') exampleSharedId ! 1) = getToday sampleHost"
    by blast+
  have dt': "t_date (handleSettleClientDebt sampleHost True (ascii ''Ali'') exampleSharedId ! 1) = ascii ''2026-11-02''"
    using dt by (simp only: sample_simps)
  from d frame p st dt' show ?thesis by (intro conjI)
qed

text \<open>
  Claim C7 as the spec words it fails where two records share an identifier: settling
  Ali replaces the completed sale of Bob, a transaction of another client and another
  type, by the settled debt of Ali.
\<close>

theorem settle_overwrites_shared_id_counterexample:
  "t_client (exampleSharedId ! 0) = ascii ''Bob''
   \<and> t_type (exampleSharedId ! 0) = Sale
   \<and> ascii ''Bob'' \<noteq> ascii ''Ali''
   \<and> handleSettleClientDebt sampleHost True (ascii ''Ali'') exampleSharedId ! 0 \<noteq> exampleSharedId ! 0
   \<and> handleSettleClientDebt sampleHost True (ascii ''Ali'') exampleSharedId =
       [exampleTx (ascii ''TX-1001'') Debt (ascii ''Ali'') (ascii ''2026-11-02'') 10 USD Completed,
        exampleTx (ascii ''TX-1001'') Debt (ascii ''Ali'') (ascii ''2026-11-02'') 10 USD Completed]"
  by (simp add: handleSettleClientDebt_def exampleSharedId_def exampleTx_def sample_simps ascii_def)

section \<open>Debts: grouping\<close>

lemma groupStep_alt:
  "groupStep h t g =
     AList.update (t_client t)
       (entryStep h t (case map_of g (t_client t) of Some e \<Rightarrow> e | None \<Rightarrow> newEntry t)) g"
  unfolding groupStep_def entryStep_def newEntry_def by (simp add: Let_def)

lemma entryStep_fields:
  "g_total (entryStep h t e) = jadd (g_total e) (t_amount t)"
  "g_count (entryStep h t e) = g_count e + 1"
  "g_lastDate (entryStep h t e) =
     (if jgt (getTime h (t_date t)) (getTime h (g_lastDate e)) then t_date t else g_lastDate e)"
  "g_phone (entryStep h t e) =
     (if truthyPhone (t_clientPhone t) then phoneOr (t_clientPhone t) else g_phone e)"
  by (simp_all add: entryStep_def Let_def)

lemma fold_groupStep_keys:
  "fst ` set (fold (groupStep h) ts g) = fst ` set g \<union> t_client ` set ts"
  by (induction ts arbitrary: g) (auto simp: groupStep_alt dom_update)

lemma fold_groupStep_distinct:
  "distinct (map fst g) \<Longrightarrow> distinct (map fst (fold (groupStep h) ts g))"
  by (induction ts arbitrary: g) (simp_all add: groupStep_alt distinct_update)

lemma map_of_groupStep:
  "map_of (groupStep h t g) c = (if t_client t = c then optStep h t (map_of g c) else map_of g c)"
  by (simp add: groupStep_alt update_conv' optStep_def)

lemma map_of_fold_groupStep:
  "map_of (fold (groupStep h) ts g) c = fold (optStep h) (filter (\<lambda>t. t_client t = c) ts) (map_of g c)"
  by (induction ts arbitrary: g) (simp_all add: map_of_groupStep)

lemma fold_optStep_Some: "fold (optStep h) ts (Some e) = Some (fold (entryStep h) ts e)"
  by (induction ts arbitrary: e) (simp_all add: optStep_def)

lemma fold_optStep_None:
  "fold (optStep h) ts None = (case ts of [] \<Rightarrow> None | t # rest \<Rightarrow> Some (fold (entryStep h) ts (newEntry t)))"
  by (cases ts) (simp_all add: optStep_def fold_optStep_Some)

lemma fold_entryStep_total:
  "g_total (fold (entryStep h) ts e) = foldl jadd (g_total e) (map t_amount ts)"
  by (induction ts arbitrary: e) (simp_all add: entryStep_fields)

lemma fold_entryStep_count:
  "g_count (fold (entryStep h) ts e) = g_count e + length ts"
  by (induction ts arbitrary: e) (simp_all add: entryStep_fields)

lemma truthyPhone_iff: "truthyPhone p \<longleftrightarrow> phoneOr p \<noteq> []"
  by (cases p) simp_all

lemma fold_entryStep_phone:
  "g_phone (fold (entryStep h) ts e) =
     (if filter (\<lambda>p. p \<noteq> []) (map (\<lambda>t. phoneOr (t_clientPhone t)) ts) = [] then g_phone e
      else last (filter (\<lambda>p. p \<noteq> []) (map (\<lambda>t. phoneOr (t_clientPhone t)) ts)))"
proof (induction ts arbitrary: e)
  case Nil
  then show ?case by simp
next
  case (Cons t ts)
  show ?case
    by (simp add: Cons.IH entryStep_fields truthyPhone_iff)
qed

lemma jge_refl: "n \<noteq> NaN \<Longrightarrow> jge n n"
  by (cases n) simp_all

lemma not_jgt_jge: "a \<noteq> NaN \<Longrightarrow> b \<noteq> NaN \<Longrightarrow> \<not> jgt a b \<Longrightarrow> jge b a"
  by (cases a; cases b) simp_all

lemma jgt_jge: "jgt a b \<Longrightarrow> jge a b"
  by (cases a; cases b) simp_all

lemma jge_trans: "jge a b \<Longrightarrow> jge b c \<Longrightarrow> jge a c"
  by (cases a; cases b; cases c) simp_all

lemma entryStep_lastDate:
  "g_lastDate (entryStep h t e) =
     (if jgt (getTime h (t_date t)) (getTime h (g_lastDate e)) then t_date t else g_lastDate e)"
  by (rule entryStep_fields)

lemma fold_entryStep_lastDate:
  assumes "getTime h (g_lastDate e) \<noteq> NaN" "\<forall>t\<in>set ts. getTime h (t_date t) \<noteq> NaN"
  shows "(g_lastDate (fold (entryStep h) ts e) = g_lastDate e
          \<or> g_lastDate (fold (entryStep h) ts e) \<in> t_date ` set ts)
       \<and> jge (getTime h (g_lastDate (fold (entryStep h) ts e))) (getTime h (g_lastDate e))
       \<and> (\<forall>t\<in>set ts. jge (getTime h (g_lastDate (fold (entryStep h) ts e))) (getTime h (t_date t)))"
  using assms
proof (induction ts arbitrary: e)
  case Nil
  then show ?case by (simp add: jge_refl)
next
  case (Cons t ts)
  let ?e' = "entryStep h t e"
  let ?r = "fold (entryStep h) ts ?e'"
  have vt: "getTime h (t_date t) \<noteq> NaN" using Cons.prems by simp
  have ve: "getTime h (g_lastDate e) \<noteq> NaN" using Cons.prems by simp
  have d': "g_lastDate ?e' = t_date t \<or> g_lastDate ?e' = g_lastDate e"
    by (simp add: entryStep_lastDate)
  have v': "getTime h (g_lastDate ?e') \<noteq> NaN"
    using vt ve by (simp add: entryStep_lastDate)
  have ge_e: "jge (getTime h (g_lastDate ?e')) (getTime h (g_lastDate e))"
    using vt ve by (simp add: entryStep_lastDate jgt_jge jge_refl)
  have ge_t: "jge (getTime h (g_lastDate ?e')) (getTime h (t_date t))"
    using vt ve by (simp add: entryStep_lastDate not_jgt_jge jge_refl)
  have rest: "\<forall>u\<in>set ts. getTime h (t_date u) \<noteq> NaN" using Cons.prems by simp
  from Cons.IH [OF v' rest]
  have ih: "g_lastDate ?r = g_lastDate ?e' \<or> g_lastDate ?r \<in> t_date ` set ts"
    "jge (getTime h (g_lastDate ?r)) (getTime h (g_lastDate ?e'))"
    "\<forall>u\<in>set ts. jge (getTime h (g_lastDate ?r)) (getTime h (t_date u))"
    by blast+
  have a: "g_lastDate ?r = g_lastDate e \<or> g_lastDate ?r \<in> t_date ` set (t # ts)"
    using ih(1) d' by auto
  have b: "jge (getTime h (g_lastDate ?r)) (getTime h (g_lastDate e))"
    using ih(2) ge_e by (rule jge_trans)
  have c: "jge (getTime h (g_lastDate ?r)) (getTime h (t_date t))"
    using ih(2) ge_t by (rule jge_trans)
  show ?case using a b c ih(3) by simp
qed

lemma jgt_not_NaN: "jgt a b \<Longrightarrow> a \<noteq> NaN"
  by (cases a; cases b) simp_all

lemma fold_entryStep_lastDate_mem:
  "g_lastDate (fold (entryStep h) ts e) = g_lastDate e
   \<or> g_lastDate (fold (entryStep h) ts e) \<in> t_date ` set ts"
proof (induction ts arbitrary: e)
  case Nil
  then show ?case by simp
next
  case (Cons t ts)
  let ?e' = "entryStep h t e"
  have d': "g_lastDate ?e' = t_date t \<or> g_lastDate ?e' = g_lastDate e"
    by (simp add: entryStep_lastDate)
  from Cons.IH [of ?e']
  have "g_lastDate (fold (entryStep h) ts ?e') = g_lastDate ?e'
      \<or> g_lastDate (fold (entryStep h) ts ?e') \<in> t_date ` set ts" .
  with d' show ?case by auto
qed

text \<open>
  An entry whose last date is valid keeps a valid last date, at least as late as each
  valid date it meets; transactions with an invalid date are passed over.
\<close>

lemma fold_entryStep_lastDate_first:
  assumes "getTime h (g_lastDate e) \<noteq> NaN"
  shows "getTime h (g_lastDate (fold (entryStep h) ts e)) \<noteq> NaN
       \<and> jge (getTime h (g_lastDate (fold (entryStep h) ts e))) (getTime h (g_lastDate e))
       \<and> (\<forall>t\<in>set ts. getTime h (t_date t) \<noteq> NaN \<longrightarrow>
             jge (getTime h (g_lastDate (fold (entryStep h) ts e))) (getTime h (t_date t)))"
  using assms
proof (induction ts arbitrary: e)
  case Nil
  then show ?case by (simp add: jge_refl)
next
  case (Cons t ts)
  let ?e' = "entryStep h t e"
  let ?r = "fold (entryStep h) ts ?e'"
  have ve: "getTime h (g_lastDate e) \<noteq> NaN" using Cons.prems by simp
  have v': "getTime h (g_lastDate ?e') \<noteq> NaN"
    using ve by (auto simp: entryStep_lastDate dest: jgt_not_NaN)
  have ge_e: "jge (getTime h (g_lastDate ?e')) (getTime h (g_lastDate e))"
    using ve by (simp add: entryStep_lastDate jgt_jge jge_refl)
  have ge_t: "jge (getTime h (g_lastDate ?e')) (getTime h (t_date t))"
    if "getTime h (t_date t) \<noteq> NaN"
    using that ve by (simp add: entryStep_lastDate not_jgt_jge jge_refl)
  from Cons.IH [OF v']
  have ih: "getTime h (g_lastDate ?r) \<noteq> NaN"
    "jge (getTime h (g_lastDate ?r)) (getTime h (g_lastDate ?e'))"
    "\<forall>u\<in>set ts. getTime h (t_date u) \<noteq> NaN \<longrightarrow> jge (getTime h (g_lastDate ?r)) (getTime h (t_date u))"
    by blast+
  have b: "jge (getTime h (g_lastDate ?r)) (getTime h (g_lastDate e))"
    using ih(2) ge_e by (rule jge_trans)
  have c: "getTime h (t_date t) \<noteq> NaN \<longrightarrow> jge (getTime h (g_lastDate ?r)) (getTime h (t_date t))"
  proof
    assume "getTime h (t_date t) \<noteq> NaN"
    from ih(2) ge_t [OF this] show "jge (getTime h (g_lastDate ?r)) (getTime h (t_date t))"
      by (rule jge_trans)
  qed
  show ?case using ih(1) b c ih(3) by simp
qed

text \<open>The entry of a client after the whole fold.\<close>

lemma debtList_entry:
  assumes "s \<in> set (debtList h txs)"
  shows "\<exists>t rest. debtsOf (d_name s) txs = t # rest
     \<and> s = toSummary (d_name s, fold (entryStep h) (t # rest) (newEntry t))"
proof -
  let ?g = "fold (groupStep h) (filter isPendingDebt txs) []"
  from assms obtain p where p: "p \<in> set ?g" "s = toSummary p"
    by (auto simp: debtList_def)
  obtain c e where ce: "p = (c, e)" by (cases p)
  have name: "d_name s = c" using p ce by (simp add: toSummary_def)
  have "distinct (map fst ?g)" by (rule fold_groupStep_distinct) simp
  then have "map_of ?g c = Some e" using p ce by simp
  then have "fold (optStep h) (debtsOf c txs) None = Some e"
    by (simp add: map_of_fold_groupStep debtsOf_def)
  then obtain t rest where "debtsOf c txs = t # rest" "e = fold (entryStep h) (t # rest) (newEntry t)"
    by (auto simp: fold_optStep_None split: list.splits)
  then show ?thesis using p ce name by auto
qed

lemma debtList_names: "map d_name (debtList h txs) = map fst (fold (groupStep h) (filter isPendingDebt txs) [])"
  by (simp add: debtList_def toSummary_def comp_def)

lemma lastPhone_entry:
  "g_phone (fold (entryStep h) (t # rest) (newEntry t)) = lastPhone (t # rest)"
proof -
  let ?ps = "filter (\<lambda>p. p \<noteq> []) (map (\<lambda>t. phoneOr (t_clientPhone t)) (t # rest))"
  show ?thesis
  proof (cases "?ps = []")
    case True
    then have "phoneOr (t_clientPhone t) = []" by (auto split: if_splits)
    then have "g_phone (newEntry t) = []" by (simp add: newEntry_def)
    with True show ?thesis
      unfolding lastPhone_def Let_def fold_entryStep_phone by (simp only: if_True)
  next
    case False
    then show ?thesis
      unfolding lastPhone_def Let_def fold_entryStep_phone by (simp only: if_False)
  qed
qed

text \<open>
  Claim C8, as the code has it. The grouper gives one summary for each client that has
  a pending debt, and no other. The total of a summary is the sum of the amounts of the
  client's pending debts, its count their number, its phone the last non-empty phone
  among them (empty if there is none), and its last date one of their dates. When the
  date of the first of them is valid, the last date is valid and its time stamp is at
  least the time stamp of each of them that has a valid date; so when all their dates
  are valid, it is a most recent one.
\<close>

theorem debt_grouping:
  "distinct (map d_name (debtList h txs))
   \<and> set (map d_name (debtList h txs)) = t_client ` set (filter isPendingDebt txs)
   \<and> (\<forall>s\<in>set (debtList h txs).
         debtsOf (d_name s) txs \<noteq> []
       \<and> d_total s = foldl jadd (Num 0) (map t_amount (debtsOf (d_name s) txs))
       \<and> d_count s = length (debtsOf (d_name s) txs)
       \<and> d_phone s = lastPhone (debtsOf (d_name s) txs)
       \<and> d_lastDate s \<in> t_date ` set (debtsOf (d_name s) txs)
       \<and> (getTime h (t_date (hd (debtsOf (d_name s) txs))) \<noteq> NaN \<longrightarrow>
            getTime h (d_lastDate s) \<noteq> NaN
            \<and> (\<forall>t\<in>set (debtsOf (d_name s) txs). getTime h (t_date t) \<noteq> NaN \<longrightarrow>
                  jge (getTime h (d_lastDate s)) (getTime h (t_date t))))
       \<and> ((\<forall>t\<in>set (debtsOf (d_name s) txs). getTime h (t_date t) \<noteq> NaN) \<longrightarrow>
            d_lastDate s \<in> t_date ` set (debtsOf (d_name s) txs)
            \<and> (\<forall>t\<in>set (debtsOf (d_name s) txs).
                  jge (getTime h (d_lastDate s)) (getTime h (t_date t)))))"
proof (intro conjI ballI)
  show "distinct (map d_name (debtList h txs))"
    unfolding debtList_names by (rule fold_groupStep_distinct) simp
  show "set (map d_name (debtList h txs)) = t_client ` set (filter isPendingDebt txs)"
    unfolding debtList_names by (simp only: set_map fold_groupStep_keys) simp
next
  fix s assume s: "s \<in> set (debtList h txs)"
  from debtList_entry [OF s] obtain t rest where
    G: "debtsOf (d_name s) txs = t # rest"
    and e: "s = toSummary (d_name s, fold (entryStep h) (t # rest) (newEntry t))" by blast
  let ?e = "fold (entryStep h) (t # rest) (newEntry t)"
  have f: "d_total s = g_total ?e" "d_count s = g_count ?e" "d_phone s = g_phone ?e"
    "d_lastDate s = g_lastDate ?e"
    by (subst e, simp add: toSummary_def)+
  show "debtsOf (d_name s) txs \<noteq> []" using G by simp
  show "d_total s = foldl jadd (Num 0) (map t_amount (debtsOf (d_name s) txs))"
    unfolding f G fold_entryStep_total by (simp add: newEntry_def)
  show "d_count s = length (debtsOf (d_name s) txs)"
    unfolding f G fold_entryStep_count by (simp add: newEntry_def)
  show "d_phone s = lastPhone (debtsOf (d_name s) txs)"
    unfolding f G by (rule lastPhone_entry)
  have "g_lastDate ?e = g_lastDate (newEntry t) \<or> g_lastDate ?e \<in> t_date ` set (t # rest)"
    by (rule fold_entryStep_lastDate_mem)
  then have "g_lastDate ?e \<in> t_date ` set (t # rest)" by (auto simp: newEntry_def)
  then show "d_lastDate s \<in> t_date ` set (debtsOf (d_name s) txs)"
    unfolding f G .
  show "getTime h (t_date (hd (debtsOf (d_name s) txs))) \<noteq> NaN \<longrightarrow>
            getTime h (d_lastDate s) \<noteq> NaN
            \<and> (\<forall>t\<in>set (debtsOf (d_name s) txs). getTime h (t_date t) \<noteq> NaN \<longrightarrow>
                  jge (getTime h (d_lastDate s)) (getTime h (t_date t)))"
  proof
    assume "getTime h (t_date (hd (debtsOf (d_name s) txs))) \<noteq> NaN"
    then have v1: "getTime h (g_lastDate (newEntry t)) \<noteq> NaN"
      unfolding G by (simp add: newEntry_def)
    from fold_entryStep_lastDate_first [OF v1, of "t # rest"]
    show "getTime h (d_lastDate s) \<noteq> NaN
            \<and> (\<forall>t\<in>set (debtsOf (d_name s) txs). getTime h (t_date t) \<noteq> NaN \<longrightarrow>
                  jge (getTime h (d_lastDate s)) (getTime h (t_date t)))"
      unfolding f G by blast
  qed
  show "(\<forall>t\<in>set (debtsOf (d_name s) txs). getTime h (t_date t) \<noteq> NaN) \<longrightarrow>
            d_lastDate s \<in> t_date ` set (debtsOf (d_name s) txs)
            \<and> (\<forall>t\<in>set (debtsOf (d_name s) txs).
                  jge (getTime h (d_lastDate s)) (getTime h (t_date t)))"
  proof
    assume v: "\<forall>t\<in>set (debtsOf (d_name s) txs). getTime h (t_date t) \<noteq> NaN"
    then have v1: "getTime h (g_lastDate (newEntry t)) \<noteq> NaN"
      and v2: "\<forall>u\<in>set (t # rest). getTime h (t_date u) \<noteq> NaN"
      unfolding G by (simp_all add: newEntry_def)
    from fold_entryStep_lastDate [OF v1 v2]
    have "g_lastDate ?e = g_lastDate (newEntry t) \<or> g_lastDate ?e \<in> t_date ` set (t # rest)"
      and ge: "\<forall>u\<in>set (t # rest). jge (getTime h (g_lastDate ?e)) (getTime h (t_date u))"
      by blast+
    then have "g_lastDate ?e \<in> t_date ` set (t # rest)" by (auto simp: newEntry_def)
    with ge show "d_lastDate s \<in> t_date ` set (debtsOf (d_name s) txs)
            \<and> (\<forall>t\<in>set (debtsOf (d_name s) txs).
                  jge (getTime h (d_lastDate s)) (getTime h (t_date t)))"
      unfolding f G by blast
  qed
qed

lemmas eval_debts = debtList_def exampleDebts_def exampleTx_def isPendingDebt_def groupStep_def
  toSummary_def getTime_def sample_simps sampleDates_def ascii_def Let_def debtsOf_def lastPhone_def

lemma exampleDebts_grouped:
  "debtList sampleHost exampleDebts =
     [\<lparr>d_name = ascii ''Ali'', d_total = Num 60, d_lastDate = ascii ''2024-01-03'',
       d_phone = ascii ''0770'', d_count = 3\<rparr>,
      \<lparr>d_name = ascii ''Sara'', d_total = Num 5, d_lastDate = ascii ''2024-01-02'',
       d_phone = [], d_count = 1\<rparr>]"
  by (simp add: eval_debts)

text \<open>
  The theorem on the example debts: amounts 20, 30 and 10 on the second, third and first
  of January give the total 60, the count 3 and the last date 2024-01-03.
\<close>

theorem debt_grouping_witness:
  "debtList sampleHost exampleDebts ! 0 \<in> set (debtList sampleHost exampleDebts)
   \<and> d_name (debtList sampleHost exampleDebts ! 0) = ascii ''Ali''
   \<and> map t_amount (debtsOf (ascii ''Ali'') exampleDebts) = [Num 20, Num 30, Num 10]
   \<and> map t_date (debtsOf (ascii ''Ali'') exampleDebts)
       = [ascii ''2024-01-02'', ascii ''2024-01-03'', ascii ''2024-01-01'']
   \<and> d_total (debtList sampleHost exampleDebts ! 0) = Num 60
   \<and> d_count (debtList sampleHost exampleDebts ! 0) = 3
   \<and> d_phone (debtList sampleHost exampleDebts ! 0) = ascii ''0770''
   \<and> d_lastDate (debtList sampleHost exampleDebts ! 0) = ascii ''2024-01-03''
   \<and> jge (getTime sampleHost (d_lastDate (debtList sampleHost exampleDebts ! 0)))
         (getTime sampleHost (ascii ''2024-01-03''))
   \<and> getTime sampleHost (t_date (hd (debtsOf (ascii ''Ali'') exampleDebts))) = Num 1704153600000
   \<and> getTime sampleHost (d_lastDate (debtList sampleHost exampleDebts ! 0)) \<noteq> NaN"
proof -
  let ?s = "debtList sampleHost exampleDebts ! 0"
  have m: "?s \<in> set (debtList sampleHost exampleDebts)" by (simp add: exampleDebts_grouped)
  have n: "d_name ?s = ascii ''Ali''" by (simp add: exampleDebts_grouped)
  have a: "map t_amount (debtsOf (ascii ''Ali'') exampleDebts) = [Num 20, Num 30, Num 10]"
    by (simp add: eval_debts)
  have d: "map t_date (debtsOf (ascii ''Ali'') exampleDebts)
       = [ascii ''2024-01-02'', ascii ''2024-01-03'', ascii ''2024-01-01'']"
    by (simp add: eval_debts)
  have ph: "lastPhone (debtsOf (ascii ''Ali'') exampleDebts) = ascii ''0770''"
    by (simp add: eval_debts)
  have v: "\<forall>t\<in>set (debtsOf (d_name ?s) exampleDebts). getTime sampleHost (t_date t) \<noteq> NaN"
    unfolding n by (simp add: eval_debts)
  from debt_grouping [where h = sampleHost and txs = exampleDebts] m
  have r: "d_total ?s = foldl jadd (Num 0) (map t_amount (debtsOf (d_name ?s) exampleDebts))"
    "d_count ?s = length (debtsOf (d_name ?s) exampleDebts)"
    "d_phone ?s = lastPhone (debtsOf (d_name ?s) exampleDebts)"
    "(\<forall>t\<in>set (debtsOf (d_name ?s) exampleDebts). getTime sampleHost (t_date t) \<noteq> NaN) \<longrightarrow>
            d_lastDate ?s \<in> t_date ` set (debtsOf (d_name ?s) exampleDebts)
            \<and> (\<forall>t\<in>set (debtsOf (d_name ?s) exampleDebts).
                  jge (getTime sampleHost (d_lastDate ?s)) (getTime sampleHost (t_date t)))"
    by blast+
  have tot: "d_total ?s = Num 60" using r(1) unfolding n a by simp
  have "length (map t_amount (debtsOf (ascii ''Ali'') exampleDebts)) = 3" unfolding a by simp
  then have cnt: "d_count ?s = 3" using r(2) unfolding n by simp
  have pho: "d_phone ?s = ascii ''0770''" using r(3) unfolding n ph .
  from r(4) v have ld: "d_lastDate ?s \<in> t_date ` set (debtsOf (d_name ?s) exampleDebts)"
    and ge: "\<forall>t\<in>set (debtsOf (d_name ?s) exampleDebts).
                  jge (getTime sampleHost (d_lastDate ?s)) (getTime sampleHost (t_date t))"
    by blast+
  have "ascii ''2024-01-03'' \<in> set (map t_date (debtsOf (d_name ?s) exampleDebts))"
    unfolding n d by simp
  then obtain t where t: "t \<in> set (debtsOf (d_name ?s) exampleDebts)" "t_date t = ascii ''2024-01-03''"
    by auto
  with ge have g3: "jge (getTime sampleHost (d_lastDate ?s)) (getTime sampleHost (ascii ''2024-01-03''))"
    by metis
  from ld have "d_lastDate ?s \<in> set (map t_date (debtsOf (d_name ?s) exampleDebts))" by simp
  then have cases: "d_lastDate ?s = ascii ''2024-01-02'' \<or> d_lastDate ?s = ascii ''2024-01-03''
      \<or> d_lastDate ?s = ascii ''2024-01-01''"
    unfolding n d by simp
  have last: "d_lastDate ?s = ascii ''2024-01-03''"
    using cases g3 by (auto simp: getTime_def sample_simps sampleDates_def ascii_def)
  have hd_t: "getTime sampleHost (t_date (hd (debtsOf (ascii ''Ali'') exampleDebts))) = Num 1704153600000"
    by (simp add: eval_debts)
  then have hv: "getTime sampleHost (t_date (hd (debtsOf (d_name ?s) exampleDebts))) \<noteq> NaN"
    unfolding n by simp
  from debt_grouping [where h = sampleHost and txs = exampleDebts] m
  have "getTime sampleHost (t_date (hd (debtsOf (d_name ?s) exampleDebts))) \<noteq> NaN \<longrightarrow>
      getTime sampleHost (d_lastDate ?s) \<noteq> NaN
      \<and> (\<forall>t\<in>set (debtsOf (d_name ?s) exampleDebts). getTime sampleHost (t_date t) \<noteq> NaN \<longrightarrow>
            jge (getTime sampleHost (d_lastDate ?s)) (getTime sampleHost (t_date t)))"
    by blast
  with hv have nn: "getTime sampleHost (d_lastDate ?s) \<noteq> NaN" by blast
  show ?thesis using m n a d tot cnt pho last g3 hd_t nn by blast
qed

text \<open>
  Claim C8 as the spec words it fails where the first pending debt of a client has a
  date that is no calendar date: every comparison with it is false, so it stays the last
  date although two later debts carry valid dates.
\<close>

theorem debt_grouping_invalid_first_date_counterexample:
  "map t_date (debtsOf (ascii ''Ali'') exampleBadDate)
     = [ascii ''2024-13-45'', ascii ''2024-01-01'', ascii ''2024-01-03'']
   \<and> getTime sampleHost (ascii ''2024-13-45'') = NaN
   \<and> getTime sampleHost (ascii ''2024-01-01'') = Num 1704067200000
   \<and> getTime sampleHost (ascii ''2024-01-03'') = Num 1704240000000
   \<and> debtList sampleHost exampleBadDate =
       [\<lparr>d_name = ascii ''Ali'', d_total = Num 60, d_lastDate = ascii ''2024-13-45'',
         d_phone = [], d_count = 3\<rparr>]"
  by (simp add: debtList_def exampleBadDate_def exampleTx_def isPendingDebt_def groupStep_def
      toSummary_def getTime_def sample_simps sampleDates_def ascii_def Let_def debtsOf_def)

section \<open>Debts: grouping ignores the currency\<close>

lemma entryStep_currency: "entryStep h (t\<lparr>t_currency := c\<rparr>) e = entryStep h t e"
  by (simp add: entryStep_def Let_def cong: if_cong)

lemma newEntry_currency: "newEntry (t\<lparr>t_currency := c\<rparr>) = newEntry t"
  by (simp add: newEntry_def)

lemma groupStep_currency: "groupStep h (t\<lparr>t_currency := c\<rparr>) g = groupStep h t g"
  by (simp add: groupStep_alt entryStep_currency newEntry_currency cong: option.case_cong)

lemma isPendingDebt_currency: "isPendingDebt (t\<lparr>t_currency := c\<rparr>) = isPendingDebt t"
  by (simp add: isPendingDebt_def)

lemma fold_groupStep_currency:
  "fold (groupStep h) (filter isPendingDebt (map (\<lambda>t. t\<lparr>t_currency := cur t\<rparr>) txs)) g =
   fold (groupStep h) (filter isPendingDebt txs) g"
  by (induction txs arbitrary: g) (simp_all add: groupStep_currency isPendingDebt_currency)

lemma exampleMixed_debtsOf:
  "map t_amount (debtsOf (ascii ''Ali'') exampleMixed) = [Num 10, Num 1520]"
  by (simp add: exampleMixed_def exampleTx_def debtsOf_def isPendingDebt_def ascii_def)

lemma exampleMixed_names: "map d_name (debtList h exampleMixed) = [ascii ''Ali'']"
  unfolding debtList_names
  by (simp add: exampleMixed_def exampleTx_def isPendingDebt_def groupStep_alt)

text \<open>
  Claim C10. The grouper does not look at the currency: changing the currencies of the
  transactions changes no summary, and each total is the sum of the amounts as stored.
  For a client with pending debts of 10 USD and 1520 IQD the grouped total is 1530,
  while the dashboard's total debt is \<open>(10 + 1520 / 1520) * 1520 = 16720\<close> and the
  report's pending debt is 11: both normalize each amount to USD before adding.
\<close>

theorem debtList_sums_raw_amounts:
  "debtList h (map (\<lambda>t. t\<lparr>t_currency := cur t\<rparr>) txs) = debtList h txs
   \<and> (\<forall>s\<in>set (debtList h txs).
        d_total s = foldl jadd (Num 0) (map t_amount (debtsOf (d_name s) txs)))
   \<and> map d_total (debtList h exampleMixed) = [Num 1530]
   \<and> ds_totalDebt (dashboardStats h exampleMixed) = Num 16720
   \<and> r_pendingDebt (fold reportStep exampleMixed initReportAcc) = Num 11"
proof (intro conjI ballI)
  show "debtList h (map (\<lambda>t. t\<lparr>t_currency := cur t\<rparr>) txs) = debtList h txs"
    by (simp add: debtList_def fold_groupStep_currency)
next
  fix s assume s: "s \<in> set (debtList h txs)"
  from debtList_entry [OF s] obtain t rest where
    G: "debtsOf (d_name s) txs = t # rest"
    and e: "s = toSummary (d_name s, fold (entryStep h) (t # rest) (newEntry t))" by blast
  have "d_total s = g_total (fold (entryStep h) (t # rest) (newEntry t))"
    by (subst e) (simp add: toSummary_def)
  then show "d_total s = foldl jadd (Num 0) (map t_amount (debtsOf (d_name s) txs))"
    unfolding G fold_entryStep_total by (simp add: newEntry_def)
next
  let ?L = "debtList h exampleMixed"
  have len: "length ?L = 1"
    using arg_cong [OF exampleMixed_names [of h], of length] by simp
  then obtain s where L: "?L = [s]" by (cases ?L) auto
  with exampleMixed_names [of h] have n: "d_name s = ascii ''Ali''" by simp
  have "s \<in> set ?L" using L by simp
  from debtList_entry [OF this] obtain t rest where
    G: "debtsOf (d_name s) exampleMixed = t # rest"
    and e: "s = toSummary (d_name s, fold (entryStep h) (t # rest) (newEntry t))" by blast
  have "d_total s = g_total (fold (entryStep h) (t # rest) (newEntry t))"
    by (subst e) (simp add: toSummary_def)
  also have "\<dots> = foldl jadd (Num 0) (map t_amount (debtsOf (d_name s) exampleMixed))"
    unfolding G fold_entryStep_total by (simp add: newEntry_def)
  also have "\<dots> = Num 1530" unfolding n exampleMixed_debtsOf by simp
  finally show "map d_total ?L = [Num 1530]" using L by simp
next
  have "ds_totalDebt (dashboardStats h exampleMixed) =
      jmul (sumNormalized (filter isOpenDebt exampleMixed)) (Num 1520)"
    by (simp add: dashboardStats_def Let_def fold_dashStep_debt initDashAcc_def
        sumNormalized_def EXCHANGE_RATE_def)
  then show "ds_totalDebt (dashboardStats h exampleMixed) = Num 16720"
    by (simp add: exampleMixed_def eval_tx)
  have "r_pendingDebt (fold reportStep exampleMixed initReportAcc) =
      sumNormalized (filter isPendingDebt exampleMixed)"
    by (simp add: fold_reportStep_pending initReportAcc_def sumNormalized_def)
  then show "r_pendingDebt (fold reportStep exampleMixed initReportAcc) = Num 11"
    by (simp add: exampleMixed_def eval_tx)
qed

text \<open>The theorem for the summary of that client.\<close>

theorem debtList_sums_raw_amounts_witness:
  "debtList sampleHost exampleMixed ! 0 \<in> set (debtList sampleHost exampleMixed)
   \<and> d_name (debtList sampleHost exampleMixed ! 0) = ascii ''Ali''
   \<and> map t_amount (debtsOf (ascii ''Ali'') exampleMixed) = [Num 10, Num 1520]
   \<and> map t_currency (debtsOf (ascii ''Ali'') exampleMixed) = [USD, IQD]
   \<and> d_total (debtList sampleHost exampleMixed ! 0) = Num 1530"
proof -
  let ?L = "debtList sampleHost exampleMixed"
  note inst = debtList_sums_raw_amounts [where h = sampleHost and txs = exampleMixed]
  from inst have t: "map d_total ?L = [Num 1530]" by blast
  have "length (map d_total ?L) = 1" by (simp only: t) simp
  then have len: "length ?L = 1" by simp
  then have m: "?L ! 0 \<in> set ?L" by simp
  have "map d_name ?L ! 0 = ascii ''Ali''" by (simp add: exampleMixed_names)
  then have n: "d_name (?L ! 0) = ascii ''Ali''" using len by simp
  have c: "map t_currency (debtsOf (ascii ''Ali'') exampleMixed) = [USD, IQD]"
    by (simp add: exampleMixed_def exampleTx_def debtsOf_def isPendingDebt_def ascii_def)
  from inst m have "d_total (?L ! 0) = foldl jadd (Num 0) (map t_amount (debtsOf (d_name (?L ! 0)) exampleMixed))"
    by blast
  then have "d_total (?L ! 0) = Num 1530" unfolding n exampleMixed_debtsOf by simp
  with m n c exampleMixed_debtsOf show ?thesis by blast
qed

section \<open>Aggregation: chart sampling\<close>

lemma windowSizeOf_pos: "0 < len \<Longrightarrow> 0 < windowSizeOf len limit"
proof -
  assume pos: "0 < len"
  have "limit \<le> len + limit - 1" using pos by arith
  then show ?thesis
    using pos unfolding windowSizeOf_def by (simp only: div_greater_zero_iff split: if_split) simp
qed

lemma windows_Nil [simp]: "windows w [] = []"
  by (subst windows.simps) simp

lemma windows_step: "xs \<noteq> [] \<Longrightarrow> 0 < w \<Longrightarrow> windows w xs = take w xs # windows w (drop w xs)"
  by (subst windows.simps) simp

lemma optimizeLoop_windows:
  "optimizeLoop data limit i = map avgPoint (windows (windowSizeOf (length data) limit) (drop i data))"
proof (induction data limit i rule: optimizeLoop.induct)
  case (1 data limit i)
  let ?w = "windowSizeOf (length data) limit"
  show ?case
  proof (cases "i < length data")
    case True
    then have w: "0 < ?w" by (intro windowSizeOf_pos) auto
    have ne: "drop i data \<noteq> []" using True by simp
    have sl: "slice data i (i + ?w) = take ?w (drop i data)" by (simp add: slice_def)
    have nonempty: "slice data i (i + ?w) \<noteq> []" using True w by (simp add: sl)
    have ih: "optimizeLoop data limit (i + ?w) = map avgPoint (windows ?w (drop (i + ?w) data))"
      using "1.IH"(2) [OF True nonempty] .
    have "optimizeLoop data limit i = avgPoint (slice data i (i + ?w)) # optimizeLoop data limit (i + ?w)"
      using True nonempty by (subst optimizeLoop.simps) simp
    also have "\<dots> = map avgPoint (take ?w (drop i data) # windows ?w (drop ?w (drop i data)))"
      by (simp add: ih sl add.commute)
    also have "\<dots> = map avgPoint (windows ?w (drop i data))"
      using windows_step [OF ne w] by simp
    finally show ?thesis .
  next
    case False
    then show ?thesis by (subst optimizeLoop.simps) simp
  qed
qed

lemma concat_windows: "0 < w \<Longrightarrow> concat (windows w xs) = xs"
proof (induction w xs rule: windows.induct)
  case (1 w xs)
  show ?case
  proof (cases "xs = []")
    case True
    then show ?thesis by simp
  next
    case False
    with "1.prems" have st: "windows w xs = take w xs # windows w (drop w xs)"
      by (intro windows_step) simp_all
    have "concat (windows w (drop w xs)) = drop w xs"
      using "1.IH" False "1.prems" by simp
    then show ?thesis by (simp only: st concat.simps append_take_drop_id)
  qed
qed

lemma windows_bounds: "win \<in> set (windows w xs) \<Longrightarrow> win \<noteq> [] \<and> length win \<le> w"
proof (induction w xs rule: windows.induct)
  case (1 w xs)
  show ?case
  proof (cases "xs = [] \<or> w = 0")
    case True
    with "1.prems" show ?thesis by (subst (asm) windows.simps) simp
  next
    case False
    with "1.prems" have "win = take w xs \<or> win \<in> set (windows w (drop w xs))"
      by (subst (asm) windows.simps) simp
    then show ?thesis
    proof
      assume "win = take w xs"
      with False show ?thesis by simp
    next
      assume "win \<in> set (windows w (drop w xs))"
      with "1.IH" False show ?thesis by simp
    qed
  qed
qed

lemma windows_full: "Suc j < length (windows w xs) \<Longrightarrow> length (windows w xs ! j) = w"
proof (induction w xs arbitrary: j rule: windows.induct)
  case (1 w xs)
  show ?case
  proof (cases "xs = [] \<or> w = 0")
    case True
    with "1.prems" show ?thesis by (subst (asm) windows.simps) simp
  next
    case False
    then have st: "windows w xs = take w xs # windows w (drop w xs)"
      by (intro windows_step) simp_all
    show ?thesis
    proof (cases j)
      case 0
      with "1.prems" st have "windows w (drop w xs) \<noteq> []" by auto
      then have "drop w xs \<noteq> []" by (auto simp del: drop_eq_Nil)
      then have "w < length xs" by simp
      then show ?thesis using 0 st by simp
    next
      case (Suc k)
      with "1.prems" st have "Suc k < length (windows w (drop w xs))" by simp
      from "1.IH" [OF False this] show ?thesis using Suc st by simp
    qed
  qed
qed

lemma ceil_div_Suc:
  assumes "0 < w" "0 < n"
  shows "(n + w - 1) div w = Suc ((n - 1) div w)"
proof -
  have "n + w - 1 = (n - 1) + w" using assms by arith
  then have "(n + w - 1) div w = ((n - 1) + w) div w" by (rule arg_cong)
  also have "\<dots> = (n - 1) div w + 1" using assms(1) by (intro div_add_self2) simp
  finally show ?thesis by simp
qed

lemma length_windows: "0 < w \<Longrightarrow> length (windows w xs) = (length xs + w - 1) div w"
proof (induction w xs rule: windows.induct)
  case (1 w xs)
  show ?case
  proof (cases "xs = []")
    case True
    have "(w - 1) div w = 0" using "1.prems" by (intro div_less) arith
    then show ?thesis using True by simp
  next
    case False
    have st: "windows w xs = take w xs # windows w (drop w xs)"
      using False "1.prems" by (rule windows_step)
    have ih: "length (windows w (drop w xs)) = (length (drop w xs) + w - 1) div w"
      using "1.IH" False "1.prems" by simp
    have pos: "0 < length xs" using False by (cases xs) simp_all
    have lhs: "(length xs + w - 1) div w = Suc ((length xs - 1) div w)"
      using "1.prems" pos by (rule ceil_div_Suc)
    have rhs: "(length (drop w xs) + w - 1) div w = (length xs - 1) div w"
    proof (cases "w \<le> length xs")
      case True
      then have "length (drop w xs) + w - 1 = length xs - 1" by (simp only: length_drop; arith)
      then show ?thesis by (rule arg_cong)
    next
      case False
      then have "length (drop w xs) + w - 1 = w - 1" by (simp only: length_drop; arith)
      then have "(length (drop w xs) + w - 1) div w = (w - 1) div w" by (rule arg_cong)
      also have "(w - 1) div w = 0" using "1.prems" by (intro div_less) arith
      also have "0 = (length xs - 1) div w" using False by (intro div_less [symmetric]) arith
      finally show ?thesis .
    qed
    have "length (windows w xs) = Suc (length (windows w (drop w xs)))"
      by (simp only: st list.size length_Cons)
    then show ?thesis by (simp only: ih rhs lhs)
  qed
qed

lemma windowSizeOf_ceiling:
  assumes "0 < limit"
  shows "len \<le> limit * windowSizeOf len limit"
    and "0 < len \<Longrightarrow> limit * (windowSizeOf len limit - 1) < len"
proof -
  let ?w = "(len + limit - 1) div limit"
  have eq: "?w * limit + (len + limit - 1) mod limit = len + limit - 1"
    by (rule div_mult_mod_eq)
  have m: "(len + limit - 1) mod limit < limit" using assms by (rule mod_less_divisor)
  have w: "windowSizeOf len limit = ?w" using assms by (simp add: windowSizeOf_def)
  from eq m have "len \<le> ?w * limit" by arith
  then show "len \<le> limit * windowSizeOf len limit" by (simp only: w mult.commute)
  assume pos: "0 < len"
  then have "limit \<le> len + limit - 1" by arith
  then have wp: "0 < ?w" using assms by (simp only: div_greater_zero_iff; simp)
  then obtain k where k: "?w = Suc k" by (cases ?w) simp_all
  have "k * limit + limit \<le> len + limit - 1" using eq unfolding k by simp
  then have kl: "k * limit < len" using pos by arith
  have "windowSizeOf len limit = Suc k" using w k by (rule trans)
  then have "windowSizeOf len limit - 1 = k" by simp
  then show "limit * (windowSizeOf len limit - 1) < len" using kl by (simp only: mult.commute)
qed

lemma length_optimize_le:
  assumes "0 < limit" "limit < length data"
  shows "length (optimizeChartData data limit) \<le> limit"
proof -
  let ?L = "length data" and ?w = "windowSizeOf (length data) limit"
  have pos: "0 < ?L" using assms by arith
  have w: "0 < ?w" using pos by (rule windowSizeOf_pos)
  have le: "?L \<le> limit * ?w" using assms(1) by (rule windowSizeOf_ceiling)
  have "(limit + 1) * ?w = limit * ?w + ?w" by (simp only: add_mult_distrib mult_1)
  with le w have "?L + ?w - 1 < (limit + 1) * ?w" by arith
  then have "(?L + ?w - 1) div ?w < limit + 1" by (rule less_mult_imp_div_less)
  then have "length (windows ?w data) \<le> limit"
    by (simp only: length_windows [OF w]; arith)
  moreover have "optimizeChartData data limit = map avgPoint (windows ?w data)"
    using assms(2) by (simp add: optimizeChartData_def optimizeLoop_windows)
  ultimately show ?thesis by simp
qed

lemma jround_nearest: "\<bar>rat_of_int \<lfloor>r + 1 / 2\<rfloor> - r\<bar> \<le> 1 / 2"
proof -
  have "rat_of_int \<lfloor>r + 1 / 2\<rfloor> \<le> r + 1 / 2" by (rule of_int_floor_le)
  moreover have "r + 1 / 2 < rat_of_int \<lfloor>r + 1 / 2\<rfloor> + 1"
    using floor_correct [of "r + 1 / 2"] by simp
  ultimately show ?thesis by linarith
qed

text \<open>
  Claim C2. The chart data of a report is the series sampled with the limit 100. A
  series no longer than the limit is returned unchanged. For a positive limit, a longer
  series is cut into consecutive windows of \<open>w\<close> points, \<open>w\<close> being the length of the
  series divided by the limit and rounded up; every window but the last has \<open>w\<close>
  points, the last at least one; each window gives one point, with the dates of the
  window's first point and, for revenue and expenses, the mean of the window rounded to
  the nearest integer; the output has at most as many points as the limit allows.
  Sampling a sampled series again changes nothing.
\<close>

theorem chart_downsampling:
  "chartData data = optimizeChartData data 100
   \<and> (length data \<le> limit \<longrightarrow> optimizeChartData data limit = data)
   \<and> (0 < limit \<and> limit < length data \<longrightarrow>
        optimizeChartData data limit = map avgPoint (windows (windowSizeOf (length data) limit) data)
        \<and> length data \<le> limit * windowSizeOf (length data) limit
        \<and> limit * (windowSizeOf (length data) limit - 1) < length data
        \<and> concat (windows (windowSizeOf (length data) limit) data) = data
        \<and> (\<forall>win\<in>set (windows (windowSizeOf (length data) limit) data).
              win \<noteq> [] \<and> length win \<le> windowSizeOf (length data) limit)
        \<and> (\<forall>j. Suc j < length (windows (windowSizeOf (length data) limit) data) \<longrightarrow>
              length (windows (windowSizeOf (length data) limit) data ! j) = windowSizeOf (length data) limit)
        \<and> length (optimizeChartData data limit) \<le> limit)
   \<and> (0 < limit \<longrightarrow>
        optimizeChartData (optimizeChartData data limit) limit = optimizeChartData data limit)
   \<and> c_date (avgPoint window) = c_date (hd window)
   \<and> c_fullDate (avgPoint window) = c_fullDate (hd window)
   \<and> c_revenue (avgPoint window) =
        jround (jdiv (foldl jadd (Num 0) (map c_revenue window)) (Num (of_nat (length window))))
   \<and> c_expenses (avgPoint window) =
        jround (jdiv (foldl jadd (Num 0) (map c_expenses window)) (Num (of_nat (length window))))
   \<and> (\<exists>k. jround (Num r) = Num (of_int k) \<and> \<bar>of_int k - r\<bar> \<le> 1 / 2)"
proof (intro conjI impI ballI allI)
  show "chartData data = optimizeChartData data 100" by (simp add: chartData_def)
next
  assume "length data \<le> limit"
  then show "optimizeChartData data limit = data" by (simp add: optimizeChartData_def)
next
  let ?w = "windowSizeOf (length data) limit"
  assume a: "0 < limit \<and> limit < length data"
  then have pos: "0 < length data" by arith
  have w: "0 < ?w" using pos by (rule windowSizeOf_pos)
  show "optimizeChartData data limit = map avgPoint (windows ?w data)"
    using a by (simp add: optimizeChartData_def optimizeLoop_windows)
  show "length data \<le> limit * ?w" using a by (intro windowSizeOf_ceiling) simp
  show "limit * (?w - 1) < length data" using a pos by (intro windowSizeOf_ceiling) simp_all
  show "concat (windows ?w data) = data" using w by (rule concat_windows)
  show "length (optimizeChartData data limit) \<le> limit" using a by (intro length_optimize_le) simp_all
next
  fix win
  assume "0 < limit \<and> limit < length data"
    and "win \<in> set (windows (windowSizeOf (length data) limit) data)"
  then show "win \<noteq> []" "length win \<le> windowSizeOf (length data) limit"
    using windows_bounds by blast+
next
  fix j
  assume "Suc j < length (windows (windowSizeOf (length data) limit) data)"
  then show "length (windows (windowSizeOf (length data) limit) data ! j) = windowSizeOf (length data) limit"
    by (rule windows_full)
next
  assume l: "0 < limit"
  show "optimizeChartData (optimizeChartData data limit) limit = optimizeChartData data limit"
  proof (cases "length data \<le> limit")
    case True
    then show ?thesis by (simp add: optimizeChartData_def)
  next
    case False
    then have "length (optimizeChartData data limit) \<le> limit"
      using l by (intro length_optimize_le) simp_all
    then show ?thesis by (subst optimizeChartData_def) simp
  qed
next
  show "c_date (avgPoint window) = c_date (hd window)" by (simp add: avgPoint_def)
  show "c_fullDate (avgPoint window) = c_fullDate (hd window)" by (simp add: avgPoint_def)
  show "c_revenue (avgPoint window) =
        jround (jdiv (foldl jadd (Num 0) (map c_revenue window)) (Num (of_nat (length window))))"
    by (simp add: avgPoint_def foldl_map)
  show "c_expenses (avgPoint window) =
        jround (jdiv (foldl jadd (Num 0) (map c_expenses window)) (Num (of_nat (length window))))"
    by (simp add: avgPoint_def foldl_map)
  show "\<exists>k. jround (Num r) = Num (of_int k) \<and> \<bar>of_int k - r\<bar> \<le> 1 / 2"
    using jround_nearest [of r] by auto
qed

text \<open>
  The theorem on five points with the limit 2 (windows of three and two points, means
  7/3 and 17/2 for the revenue), on the same points with the limit 100, and on a series
  of 250 points.
\<close>

theorem chart_downsampling_witness:
  "length exampleSeries = 5
   \<and> windowSizeOf (length exampleSeries) 2 = 3
   \<and> optimizeChartData exampleSeries 2 = [examplePoint 2 1, examplePoint 9 2]
   \<and> optimizeChartData (optimizeChartData exampleSeries 2) 2 = optimizeChartData exampleSeries 2
   \<and> chartData exampleSeries = exampleSeries
   \<and> length (chartData (replicate 250 (examplePoint 1 1))) \<le> 100
   \<and> chartData (chartData (replicate 250 (examplePoint 1 1))) = chartData (replicate 250 (examplePoint 1 1))"
proof -
  have len: "length exampleSeries = 5" by (simp add: exampleSeries_def)
  have w: "windowSizeOf (length exampleSeries) 2 = 3" by (simp add: len windowSizeOf_def)
  have win: "windows 3 exampleSeries =
      [[examplePoint 1 0, examplePoint 2 0, examplePoint 4 3], [examplePoint 8 1, examplePoint 9 2]]"
    by (simp add: exampleSeries_def windows_step)
  have h: "(0::nat) < 2 \<and> 2 < length exampleSeries" by (simp add: len)
  from chart_downsampling [where data = exampleSeries and limit = 2] h
  have eq: "optimizeChartData exampleSeries 2 = map avgPoint (windows (windowSizeOf (length exampleSeries) 2) exampleSeries)"
    and idem: "optimizeChartData (optimizeChartData exampleSeries 2) 2 = optimizeChartData exampleSeries 2"
    by blast+
  have fl: "\<lfloor>17 / 6 :: rat\<rfloor> = 2" "\<lfloor>3 / 2 :: rat\<rfloor> = 1"
    by (rule floor_unique, simp, simp)+
  have out: "optimizeChartData exampleSeries 2 = [examplePoint 2 1, examplePoint 9 2]"
    unfolding eq w win by (simp add: avgPoint_def examplePoint_def fl)
  have small: "length exampleSeries \<le> 100" by (simp add: len)
  from chart_downsampling [where data = exampleSeries and limit = 100] small
  have keep: "chartData exampleSeries = exampleSeries" by metis
  let ?big = "replicate 250 (examplePoint 1 1)"
  have hb: "(0::nat) < 100 \<and> 100 < length ?big" by simp
  from chart_downsampling [where data = ?big and limit = 100] hb
  have b1: "length (chartData ?big) \<le> 100"
    and b2: "chartData (chartData ?big) = chartData ?big"
    by (metis chartData_def)+
  from len w out idem keep b1 b2 show ?thesis by blast
qed

end
